theory Spec2Isabelle
  imports Complex_Main "HOL-Library.AList"
begin

section \<open>Coin Collector: the authoritative server and the predicting client\<close>

text \<open>
  A shallow embedding of \<^verbatim>\<open>src/server/server.js\<close>, \<^verbatim>\<open>src/server/config.js\<close> and
  \<^verbatim>\<open>src/client/client.js\<close>.

  Conventions of the embedding.
  \<^item> A JavaScript number is a \<open>real\<close>: rounding of IEEE doubles and the infinities are
    idealised away. The one non-number the code guards against, \<open>NaN\<close>, is kept: a value
    that went through \<open>Number(v)\<close> is a \<open>jsnum\<close>, with \<open>None\<close> for \<open>NaN\<close>.
  \<^item> Wall-clock times (\<open>Date.now()\<close>) are integers of milliseconds, passed in as arguments.
  \<^item> Every draw of \<open>Math.random()\<close> and every \<open>uuidv4()\<close> is an argument of the function
    that makes the draw.
  \<^item> A JavaScript object used as a dictionary (\<open>players\<close>, \<open>coins\<close>) and the \<open>Map\<close>
    \<open>sockets\<close> are association lists in insertion order, which is the order \<open>for..in\<close>,
    \<open>Object.keys\<close>, \<open>Object.values\<close> and \<open>Map.entries\<close> enumerate them in (the keys are
    UUID strings, never array indices). \<open>AList.update\<close> overwrites in place or appends,
    \<open>AList.delete\<close> removes the key.
  \<^item> A thrown \<open>TypeError\<close> is the left injection of a sum; it carries the state as it stood
    when the exception was thrown, since what a callback has assigned before it throws stays
    assigned.
  \<^item> A player's name is whatever JSON value the join message held: the code converts it to a
    string in its logs and slices it on the client's score board, and both can throw.
  \<^item> Record fields carry a short prefix (\<open>p_x\<close> for \<open>player.x\<close>) so that they do not
    capture variable names.
\<close>

subsection \<open>Numbers and configuration\<close>

text \<open>The constants are those of \<^verbatim>\<open>config.js\<close>, under the names \<^verbatim>\<open>server.js\<close> (lines 10-21) gives them.\<close>

type_synonym jsnum = "real option"

text \<open>\<open>Number(v) || 0\<close>: \<open>NaN\<close> (and zero) give zero.\<close>

definition orZero :: "jsnum \<Rightarrow> real" where
  "orZero v = (case v of None \<Rightarrow> 0 | Some r \<Rightarrow> r)"

text \<open>\<open>Math.hypot(a, b)\<close>.\<close>

definition hypot :: "real \<Rightarrow> real \<Rightarrow> real" where
  "hypot a b = sqrt (a\<^sup>2 + b\<^sup>2)"

text \<open>
  A value \<open>JSON.parse\<close> returns. \<open>truthy\<close> is the test of \<open>v || d\<close>. \<open>canToString v\<close> says
  that the conversion of \<open>v\<close> to a string, as in the template literal \<open>`${v}`\<close>, returns
  rather than throws. An array is joined, each element converted in turn. An object
  with no property \<open>toString\<close> of its own answers \<open>[object Object]\<close>; with one, which a parsed
  value cannot have callable, neither \<open>toString\<close> nor \<open>valueOf\<close> gives a primitive and the
  conversion throws a \<open>TypeError\<close>. \<open>canSliceToString v\<close> says the same of
  \<open>`${v.slice(0, 8)}`\<close>: only strings and arrays have a method \<open>slice\<close>.
\<close>

datatype json =
    JNull
  | JBool bool
  | JNum real
  | JStr string
  | JArr "json list"
  | JObj "(string \<times> json) list"

fun truthy :: "json \<Rightarrow> bool" where
  "truthy JNull = False"
| "truthy (JBool b) = b"
| "truthy (JNum r) = (r \<noteq> 0)"
| "truthy (JStr s) = (s \<noteq> [])"
| "truthy (JArr xs) = True"
| "truthy (JObj kvs) = True"

fun canToString :: "json \<Rightarrow> bool" where
  "canToString (JArr xs) = list_all canToString xs"
| "canToString (JObj kvs) = (''toString'' \<notin> set (map fst kvs))"
| "canToString v = True"

fun canSliceToString :: "json \<Rightarrow> bool" where
  "canSliceToString (JStr s) = True"
| "canSliceToString (JArr xs) = list_all canToString (take 8 xs)"
| "canSliceToString v = False"

definition TICK_RATE :: real where "TICK_RATE = 20"
definition MS_PER_TICK :: real where "MS_PER_TICK = 1000 / TICK_RATE"
definition ONE_WAY_LATENCY :: int where "ONE_WAY_LATENCY = 200"
definition LATENCY_JITTER :: real where "LATENCY_JITTER = 10"
definition PLAYER_SPEED :: real where "PLAYER_SPEED = 120"
definition PICKUP_RADIUS :: real where "PICKUP_RADIUS = 16"
definition MAP_W :: real where "MAP_W = 800"
definition MAP_H :: real where "MAP_H = 600"
definition COIN_SPAWN_INTERVAL_MS :: int where "COIN_SPAWN_INTERVAL_MS = 2500"
definition MAX_COINS :: nat where "MAX_COINS = 10"
definition SNAPSHOT_BROADCAST_RATE :: int where "SNAPSHOT_BROADCAST_RATE = 1"
definition MAX_PLAYERS :: nat where "MAX_PLAYERS = 8"
definition DEBUG :: bool where "DEBUG = True"

subsection \<open>Server data\<close>

text \<open>The global state of \<^verbatim>\<open>server.js\<close> (lines 26-33, 180-181) and the objects it holds.\<close>

type_synonym ws = nat

datatype error = TypeError

text \<open>
  What a call that can throw gives: \<open>Inr s\<close> when it returns with the state \<open>s\<close>,
  \<open>Inl (err, s)\<close> when it throws \<open>err\<close> with the state at \<open>s\<close>.
\<close>

type_synonym 'a outcome = "(error \<times> 'a) + 'a"

definition stateOf :: "'a outcome \<Rightarrow> 'a" where
  "stateOf r = (case r of Inl (err, s) \<Rightarrow> s | Inr s \<Rightarrow> s)"

text \<open>\<open>lastInput\<close>: \<open>{ seq, dx, dy, ts }\<close>; \<open>ts\<close> is absent in the intent a join stores.\<close>

record intent =
  i_seq :: real
  i_dx :: jsnum
  i_dy :: jsnum
  i_ts :: "int option"

record player =
  p_id :: string
  p_name :: json
  p_x :: real
  p_y :: real
  p_vx :: real
  p_vy :: real
  p_score :: int
  p_lastInput :: "intent option"
  p_lastSeen :: int

record coin =
  c_id :: string
  c_x :: real
  c_y :: real

text \<open>
  A player as \<open>join_ack\<close> and \<open>snapshot\<close> packets list it. \<open>join_ack\<close> carries no
  \<open>lastInputSeq\<close>: the field is \<open>None\<close> there.
\<close>

record entity =
  e_id :: string
  e_name :: json
  e_x :: real
  e_y :: real
  e_score :: int
  e_lastInputSeq :: jsnum

record snapshot =
  snapTick :: int
  serverTime :: int
  snapPlayers :: "entity list"
  snapCoins :: "coin list"

datatype packet =
    Welcome int
  | JoinReject string
  | JoinAck string int real real "entity list" "coin list"
  | Pong "int option" int
  | SnapshotPkt snapshot

text \<open>
  A parsed client message, by its \<open>type\<close> field. \<open>Input\<close> holds \<open>Number(msg.seq)\<close>,
  \<open>Number(msg.dx)\<close>, \<open>Number(msg.dy)\<close> and \<open>msg.ts\<close> (\<open>None\<close> when absent); \<open>Join\<close> holds
  \<open>msg.name\<close> (\<open>None\<close> when absent); \<open>Other\<close> is a message with no string \<open>type\<close> or an
  unknown one. An input on whose field \<open>Number\<close> itself throws is not an \<open>Input\<close>: the
  handler throws before it assigns anything and \<open>processIncomingQueue\<close> catches the
  exception, so the message counts as a payload that does not parse.
\<close>

datatype clientMsg =
    Join "json option"
  | Input jsnum jsnum jsnum "int option"
  | Ping "int option"
  | Other

text \<open>
  An entry of a delay queue: \<open>{ deliverAt, ws, raw }\<close> inbound, \<open>{ deliverAt, ws, packet }\<close>
  outbound. An inbound payload is \<open>None\<close> when \<open>JSON.parse\<close> throws on it.
\<close>

record 'a queued =
  deliverAt :: int
  sock :: ws
  payload :: 'a

record server =
  players :: "(string \<times> player) list"
  coins :: "(string \<times> coin) list"
  sockets :: "(ws \<times> string option) list"
  incomingQueue :: "clientMsg option queued list"
  outgoingQueue :: "packet queued list"
  serverTick :: int
  lastCoinSpawn :: int

text \<open>The draws one call of \<open>handleClientMessage\<close> can make.\<close>

record env =
  env_now :: int
  env_jitter :: real
  env_uuid :: string
  env_x :: real
  env_y :: real

subsection \<open>Delay queues\<close>

text \<open>
  \<^verbatim>\<open>server.js\<close>: \<open>sendWithLatency\<close> (lines 36-40), \<open>queueIncoming\<close> (43-47), the flush of
  the outgoing queue (50-62) and \<open>sortQueues\<close> (65-68). The jitter is
  \<open>Math.floor((Math.random() - 0.5) * 2 * LATENCY_JITTER)\<close>, with \<open>rnd\<close> the draw.
\<close>

definition latencyJitter :: "real \<Rightarrow> int" where
  "latencyJitter rnd = \<lfloor>(rnd - 1 / 2) * 2 * LATENCY_JITTER\<rfloor>"

definition sendWithLatency :: "real \<Rightarrow> int \<Rightarrow> ws \<Rightarrow> packet \<Rightarrow> server \<Rightarrow> server" where
  "sendWithLatency rnd now w pkt s =
     s\<lparr>outgoingQueue := outgoingQueue s @
        [\<lparr>deliverAt = now + ONE_WAY_LATENCY + latencyJitter rnd, sock = w, payload = pkt\<rparr>]\<rparr>"

definition queueIncoming :: "real \<Rightarrow> int \<Rightarrow> ws \<Rightarrow> clientMsg option \<Rightarrow> server \<Rightarrow> server" where
  "queueIncoming rnd now w raw s =
     s\<lparr>incomingQueue := incomingQueue s @
        [\<lparr>deliverAt = now + ONE_WAY_LATENCY + latencyJitter rnd, sock = w, payload = raw\<rparr>]\<rparr>"

text \<open>\<open>Array.prototype.sort\<close> with the comparator \<open>a.deliverAt - b.deliverAt\<close> is stable.\<close>

definition sortQueues :: "server \<Rightarrow> server" where
  "sortQueues s =
     s\<lparr>incomingQueue := sort_key deliverAt (incomingQueue s),
       outgoingQueue := sort_key deliverAt (outgoingQueue s)\<rparr>"

text \<open>
  The loop \<open>while (q.length && q[0].deliverAt <= now) q.shift()\<close> of both drains: the
  entries shifted, in order, and the queue left.
\<close>

fun shiftReady :: "int \<Rightarrow> 'a queued list \<Rightarrow> 'a queued list \<times> 'a queued list" where
  "shiftReady now [] = ([], [])"
| "shiftReady now (item # q) =
     (if deliverAt item \<le> now
      then (case shiftReady now q of (out, rest) \<Rightarrow> (item # out, rest))
      else ([], item # q))"

text \<open>
  The 10 ms flush of the outgoing queue. \<open>isOpen\<close> is \<open>readyState === OPEN\<close>; the result
  holds the packets handed to \<open>ws.send\<close>.
\<close>

definition flushOutgoing :: "int \<Rightarrow> (ws \<Rightarrow> bool) \<Rightarrow> server \<Rightarrow> (ws \<times> packet) list \<times> server" where
  "flushOutgoing now isOpen s =
     (case shiftReady now (outgoingQueue s) of
        (out, rest) \<Rightarrow>
          (map (\<lambda>item. (sock item, payload item)) (filter (\<lambda>item. isOpen (sock item)) out),
           s\<lparr>outgoingQueue := rest\<rparr>))"

subsection \<open>Messages\<close>

text \<open>
  \<^verbatim>\<open>server.js\<close>: \<open>handleClientMessage\<close> (lines 114-177), \<open>processIncomingQueue\<close> (100-111)
  and the handlers of the socket events (71-97). \<open>newPlayer\<close> is the object a join stores
  (127-135), \<open>acceptInput\<close> the two assignments of an accepted input (164-165).
\<close>

definition newPlayer :: "env \<Rightarrow> json option \<Rightarrow> player" where
  "newPlayer e nm =
     \<lparr>p_id = env_uuid e,
      p_name = (case nm of
                  None \<Rightarrow> JStr (''player-'' @ take 4 (env_uuid e))
                | Some n \<Rightarrow> if truthy n then n else JStr (''player-'' @ take 4 (env_uuid e))),
      p_x = env_x e * (MAP_W - 40) + 20,
      p_y = env_y e * (MAP_H - 40) + 20,
      p_vx = 0, p_vy = 0,
      p_score = 0,
      p_lastInput = Some \<lparr>i_seq = 0, i_dx = Some 0, i_dy = Some 0, i_ts = None\<rparr>,
      p_lastSeen = env_now e\<rparr>"

definition playerView :: "player \<Rightarrow> entity" where
  "playerView p =
     \<lparr>e_id = p_id p, e_name = p_name p, e_x = p_x p, e_y = p_y p, e_score = p_score p,
      e_lastInputSeq = None\<rparr>"

definition acceptInput :: "env \<Rightarrow> real \<Rightarrow> real \<Rightarrow> real \<Rightarrow> int option \<Rightarrow> player \<Rightarrow> player" where
  "acceptInput e seq dx dy ts p =
     p\<lparr>p_lastInput := Some \<lparr>i_seq = seq, i_dx = Some dx, i_dy = Some dy,
          i_ts = (case ts of None \<Rightarrow> Some (env_now e)
                  | Some t \<Rightarrow> if t = 0 then Some (env_now e) else Some t)\<rparr>,
       p_lastSeen := env_now e\<rparr>"

text \<open>
  In the join branch, between \<open>sockets.set(ws, id)\<close> and the \<open>join_ack\<close>, stands
  \<open>if (DEBUG) console.log(`[join] ${players[id].name} ...`)\<close> (line 137): the conversion of
  the name can throw, with the player stored and the socket bound.
\<close>

fun handleClientMessage :: "env \<Rightarrow> ws \<Rightarrow> clientMsg \<Rightarrow> server \<Rightarrow> server outcome" where
  "handleClientMessage e w (Join nm) s =
     (if length (players s) \<ge> MAX_PLAYERS
      then Inr (sendWithLatency (env_jitter e) (env_now e) w (JoinReject ''server_full'') s)
      else
        (let s1 = s\<lparr>players := AList.update (env_uuid e) (newPlayer e nm) (players s),
                     sockets := AList.update w (Some (env_uuid e)) (sockets s)\<rparr>
         in if DEBUG \<and> \<not> canToString (p_name (newPlayer e nm)) then Inl (TypeError, s1)
            else Inr (sendWithLatency (env_jitter e) (env_now e) w
                  (JoinAck (env_uuid e) (env_now e) MAP_W MAP_H
                     (map (playerView \<circ> snd) (players s1)) (map snd (coins s1))) s1)))"
| "handleClientMessage e w (Input mseq mdx mdy mts) s =
     (case map_of (sockets s) w of
        None \<Rightarrow> Inr s
      | Some None \<Rightarrow> Inr s
      | Some (Some pid) \<Rightarrow>
          if pid = [] then Inr s
          else
            (case map_of (players s) pid of
               None \<Rightarrow> Inr s
             | Some p \<Rightarrow>
                 (let seq = orZero mseq;
                      dx = max (- 1) (min 1 (orZero mdx));
                      dy = max (- 1) (min 1 (orZero mdy))
                  in case p_lastInput p of
                       None \<Rightarrow> Inl (TypeError, s)
                     | Some li \<Rightarrow>
                         if seq \<le> i_seq li then Inr s
                         else Inr (s\<lparr>players :=
                                AList.update pid (acceptInput e seq dx dy mts p) (players s)\<rparr>))))"
| "handleClientMessage e w (Ping ts) s =
     Inr (sendWithLatency (env_jitter e) (env_now e) w (Pong ts (env_now e)) s)"
| "handleClientMessage e w Other s = Inr s"

text \<open>
  \<open>processIncomingQueue\<close>: every entry shifted is parsed and handled; a parse error or an
  exception of the handler is caught, and the loop goes on from the state the handler
  left. \<open>envs k\<close> are the draws for the \<open>k\<close>-th entry delivered.
\<close>

fun deliver :: "(nat \<Rightarrow> env) \<Rightarrow> nat \<Rightarrow> clientMsg option queued list \<Rightarrow> server \<Rightarrow> server" where
  "deliver envs k [] s = s"
| "deliver envs k (item # items) s =
     deliver envs (Suc k) items
       (case payload item of
          None \<Rightarrow> s
        | Some msg \<Rightarrow>
            stateOf (handleClientMessage (envs k) (sock item) msg s))"

definition processIncomingQueue :: "(nat \<Rightarrow> env) \<Rightarrow> int \<Rightarrow> server \<Rightarrow> server" where
  "processIncomingQueue envs now s =
     (case shiftReady now (incomingQueue s) of
        (out, rest) \<Rightarrow> deliver envs 0 out (s\<lparr>incomingQueue := rest\<rparr>))"

text \<open>The socket events: \<open>connection\<close>, \<open>message\<close> and \<open>close\<close>.\<close>

definition onConnection :: "real \<Rightarrow> int \<Rightarrow> ws \<Rightarrow> server \<Rightarrow> server" where
  "onConnection rnd now w s =
     sendWithLatency rnd now w (Welcome now) (s\<lparr>sockets := AList.update w None (sockets s)\<rparr>)"

definition onMessage :: "real \<Rightarrow> int \<Rightarrow> ws \<Rightarrow> clientMsg option \<Rightarrow> server \<Rightarrow> server" where
  "onMessage rnd now w raw s = sortQueues (queueIncoming rnd now w raw s)"

definition onClose :: "ws \<Rightarrow> server \<Rightarrow> server" where
  "onClose w s =
     (let pid = map_of (sockets s) w;
          s1 = s\<lparr>sockets := AList.delete w (sockets s)\<rparr>
      in case pid of
           Some (Some i) \<Rightarrow>
             if i \<noteq> [] \<and> map_of (players s1) i \<noteq> None
             then s1\<lparr>players := AList.delete i (players s1)\<rparr> else s1
         | _ \<Rightarrow> s1)"

subsection \<open>The simulation tick\<close>

text \<open>
  \<^verbatim>\<open>server.js\<close>: \<open>gameTick\<close> (lines 183-246) with its four phases, \<open>maybeSpawnCoin\<close>
  (249-260), \<open>broadcastSnapshot\<close> (263-281) and the housekeeping timer (290-307).
\<close>

text \<open>Phase 1 of \<open>gameTick\<close>: the displacement of one player before the bounds clamp.\<close>

definition normalizeIntent :: "real \<Rightarrow> real \<Rightarrow> real \<times> real" where
  "normalizeIntent dx dy =
     (let len = hypot dx dy
      in if len > 1 / 10000 then (dx / len, dy / len) else (0, 0))"

definition tickDisplacement :: "intent option \<Rightarrow> real \<times> real" where
  "tickDisplacement li =
     (let input = (case li of None \<Rightarrow> (Some 0, Some 0) | Some i \<Rightarrow> (i_dx i, i_dy i));
          intendedDx = orZero (fst input);
          intendedDy = orZero (snd input);
          n = normalizeIntent intendedDx intendedDy;
          dt = MS_PER_TICK / 1000;
          moveDist = PLAYER_SPEED * dt;
          maxAllowedMove = moveDist * (12 / 10);
          dx = fst n * moveDist;
          dy = snd n * moveDist;
          actualDx = max (- maxAllowedMove) (min maxAllowedMove dx);
          actualDy = max (- maxAllowedMove) (min maxAllowedMove dy)
      in (actualDx, actualDy))"

definition movePlayer :: "player \<Rightarrow> player" where
  "movePlayer p =
     (let d = tickDisplacement (p_lastInput p)
      in p\<lparr>p_x := max (0 + 8) (min (MAP_W - 8) (p_x p + fst d)),
           p_y := max (0 + 8) (min (MAP_H - 8) (p_y p + snd d))\<rparr>)"

definition applyMovement :: "(string \<times> player) list \<Rightarrow> (string \<times> player) list" where
  "applyMovement ps = map (\<lambda>(pid, p). (pid, movePlayer p)) ps"

text \<open>
  Phase 2: the inner loop over the players for one coin. The first player in range gets
  the point and the scan stops (\<open>break\<close>); the result names that player, by key and by
  the name the \<open>[pickup]\<close> log prints.
\<close>

definition inRange :: "coin \<Rightarrow> player \<Rightarrow> bool" where
  "inRange c p \<longleftrightarrow>
     (p_x p - c_x c)\<^sup>2 + (p_y p - c_y c)\<^sup>2 \<le> PICKUP_RADIUS * PICKUP_RADIUS"

fun pickup ::
  "coin \<Rightarrow> (string \<times> player) list \<Rightarrow> (string \<times> player) list \<times> (string \<times> json) option" where
  "pickup c [] = ([], None)"
| "pickup c ((pid, p) # ps) =
     (if inRange c p then ((pid, p\<lparr>p_score := p_score p + 1\<rparr>) # ps, Some (pid, p_name p))
      else (case pickup c ps of (ps', by) \<Rightarrow> ((pid, p) # ps', by)))"

text \<open>
  The outer loop over the coins: the players, the coins left and \<open>pickedCoins\<close>
  (\<open>{ coinId, by }\<close>). After the point is added, the entry pushed and the coin deleted,
  \<open>if (DEBUG) console.log(`[pickup] player=${p.name} ...`)\<close> (line 229) converts the name
  and can throw.
\<close>

type_synonym coinPhase = "(string \<times> player) list \<times> (string \<times> coin) list \<times> (string \<times> string) list"

fun resolveCoins :: "(string \<times> coin) list \<Rightarrow> coinPhase \<Rightarrow> coinPhase outcome" where
  "resolveCoins [] st = Inr st"
| "resolveCoins ((coinId, c) # todo) (ps, cs, pickedCoins) =
     (case pickup c ps of
        (ps', Some (pid, nm)) \<Rightarrow>
          if DEBUG \<and> \<not> canToString nm
          then Inl (TypeError, (ps', AList.delete coinId cs, pickedCoins @ [(coinId, pid)]))
          else resolveCoins todo (ps', AList.delete coinId cs, pickedCoins @ [(coinId, pid)])
      | (ps', None) \<Rightarrow> resolveCoins todo (ps, cs, pickedCoins))"

definition coinResolution ::
  "(string \<times> player) list \<Rightarrow> (string \<times> coin) list \<Rightarrow> coinPhase outcome" where
  "coinResolution ps cs = resolveCoins cs (ps, cs, [])"

text \<open>Phase 3.\<close>

definition maybeSpawnCoin :: "string \<Rightarrow> real \<Rightarrow> real \<Rightarrow> server \<Rightarrow> server" where
  "maybeSpawnCoin uuid rx ry s =
     (if length (coins s) \<ge> MAX_COINS then s
      else s\<lparr>coins := AList.update uuid
               \<lparr>c_id = uuid, c_x = rx * (MAP_W - 20 * 2) + 20, c_y = ry * (MAP_H - 20 * 2) + 20\<rparr>
               (coins s)\<rparr>)"

text \<open>
  Phase 4. \<open>p.lastInput.seq\<close> throws on a player without \<open>lastInput\<close>. The clients are
  \<open>wss.clients\<close>, each with its \<open>readyState === OPEN\<close> and the draw for its jitter.
\<close>

fun snapshotPlayers :: "(string \<times> player) list \<Rightarrow> error + entity list" where
  "snapshotPlayers [] = Inr []"
| "snapshotPlayers ((pid, p) # ps) =
     (case p_lastInput p of
        None \<Rightarrow> Inl TypeError
      | Some li \<Rightarrow>
          (case snapshotPlayers ps of
             Inl err \<Rightarrow> Inl err
           | Inr es \<Rightarrow>
               Inr (\<lparr>e_id = p_id p, e_name = p_name p, e_x = p_x p, e_y = p_y p,
                     e_score = p_score p, e_lastInputSeq = Some (i_seq li)\<rparr> # es)))"

definition broadcastSnapshot :: "int \<Rightarrow> (ws \<times> bool \<times> real) list \<Rightarrow> server \<Rightarrow> server outcome" where
  "broadcastSnapshot now clients s =
     (case snapshotPlayers (players s) of
        Inl err \<Rightarrow> Inl (err, s)
      | Inr es \<Rightarrow>
          (let snap = \<lparr>snapTick = serverTick s, serverTime = now, snapPlayers = es,
                       snapCoins = map snd (coins s)\<rparr>
           in Inr (fold (\<lambda>(w, isOpen, rnd) s'.
                          if isOpen then sendWithLatency rnd now w (SnapshotPkt snap) s' else s')
                     clients s)))"

record tickEnv =
  t_now :: int
  t_uuid :: string
  t_x :: real
  t_y :: real
  t_clients :: "(ws \<times> bool \<times> real) list"

text \<open>Phases 3 and 4, run on the state the coin phase returns.\<close>

definition spawnAndBroadcast :: "tickEnv \<Rightarrow> server \<Rightarrow> server outcome" where
  "spawnAndBroadcast te s3 =
     (let s4 = (if t_now te - lastCoinSpawn s3 \<ge> COIN_SPAWN_INTERVAL_MS
                then maybeSpawnCoin (t_uuid te) (t_x te) (t_y te) (s3\<lparr>lastCoinSpawn := t_now te\<rparr>)
                else s3)
      in if serverTick s4 mod SNAPSHOT_BROADCAST_RATE = 0
         then broadcastSnapshot (t_now te) (t_clients te) s4
         else Inr s4)"

definition gameTick :: "tickEnv \<Rightarrow> server \<Rightarrow> server outcome" where
  "gameTick te s =
     (let s1 = s\<lparr>serverTick := serverTick s + 1\<rparr>;
          s2 = s1\<lparr>players := applyMovement (players s1)\<rparr>
      in case coinResolution (players s2) (coins s2) of
           Inl (err, (ps, cs, pickedCoins)) \<Rightarrow> Inl (err, s2\<lparr>players := ps, coins := cs\<rparr>)
         | Inr (ps, cs, pickedCoins) \<Rightarrow> spawnAndBroadcast te (s2\<lparr>players := ps, coins := cs\<rparr>))"

text \<open>The housekeeping sweep, every 10 s.\<close>

definition sweepPlayer :: "int \<Rightarrow> string \<times> player \<Rightarrow> server \<Rightarrow> server" where
  "sweepPlayer now kp s =
     (if now - p_lastSeen (snd kp) > 60000
      then s\<lparr>players := AList.delete (fst kp) (players s),
             sockets := filter (\<lambda>(w, i). i \<noteq> Some (fst kp)) (sockets s)\<rparr>
      else s)"

definition housekeeping :: "int \<Rightarrow> server \<Rightarrow> server" where
  "housekeeping now s = fold (sweepPlayer now) (players s) s"

subsection \<open>The server as a state machine\<close>

text \<open>
  The module's initial state (\<open>lastCoinSpawn = Date.now()\<close>) and its callbacks: the socket
  events, the four timers (5 ms inbound delivery, 10 ms outbound flush, the tick, the 10 s
  sweep, the 200 ms re-sort) and the console's \<open>spawn\<close>. An exception that escapes a timer
  callback ends the process: the left injection, with the state the process ended in.
\<close>

definition initialServer :: "int \<Rightarrow> server" where
  "initialServer now =
     \<lparr>players = [], coins = [], sockets = [], incomingQueue = [], outgoingQueue = [],
      serverTick = 0, lastCoinSpawn = now\<rparr>"

datatype event =
    Connection real int ws
  | Message real int ws "clientMsg option"
  | Close ws
  | ProcessIncoming "nat \<Rightarrow> env" int
  | FlushOutgoing int "ws \<Rightarrow> bool"
  | Tick tickEnv
  | Housekeeping int
  | SortQueues
  | CliSpawn string real real

fun step :: "event \<Rightarrow> server \<Rightarrow> server outcome" where
  "step (Connection rnd now w) s = Inr (onConnection rnd now w s)"
| "step (Message rnd now w raw) s = Inr (onMessage rnd now w raw s)"
| "step (Close w) s = Inr (onClose w s)"
| "step (ProcessIncoming envs now) s = Inr (processIncomingQueue envs now s)"
| "step (FlushOutgoing now isOpen) s = Inr (snd (flushOutgoing now isOpen s))"
| "step (Tick te) s = gameTick te s"
| "step (Housekeeping now) s = Inr (housekeeping now s)"
| "step SortQueues s = Inr (sortQueues s)"
| "step (CliSpawn uuid rx ry) s = Inr (maybeSpawnCoin uuid rx ry s)"

text \<open>\<open>pickedCoins\<close> of the tick an event runs; no other event picks a coin up.\<close>

definition pickedInTick :: "server \<Rightarrow> (string \<times> string) list" where
  "pickedInTick s = snd (snd (stateOf (coinResolution (applyMovement (players s)) (coins s))))"

fun eventPicks :: "event \<Rightarrow> server \<Rightarrow> (string \<times> string) list" where
  "eventPicks (Tick te) s = pickedInTick s"
| "eventPicks ev s = []"

text \<open>
  \<open>uuidv4()\<close> never returns an identifier twice: the identifiers an inbound delivery
  draws for joining players are not a player's in the registry and have collected no coin.
\<close>

fun freshIds :: "event \<Rightarrow> server \<Rightarrow> (string \<times> string) list \<Rightarrow> bool" where
  "freshIds (ProcessIncoming envs now) s picked \<longleftrightarrow>
     (\<forall>k. env_uuid (envs k) \<notin> fst ` set (players s) \<and> env_uuid (envs k) \<notin> snd ` set picked)"
| "freshIds ev s picked \<longleftrightarrow> True"

text \<open>
  \<open>history s picked\<close>: the server reaches \<open>s\<close> from its initial state, and \<open>picked\<close> are
  the \<open>pickedCoins\<close> of all its ticks so far, in order.
\<close>

inductive history :: "server \<Rightarrow> (string \<times> string) list \<Rightarrow> bool" where
  history_init: "history (initialServer now) []"
| history_step:
    "history s picked \<Longrightarrow> freshIds ev s picked \<Longrightarrow> step ev s = Inr s' \<Longrightarrow>
     history s' (picked @ eventPicks ev s)"

text \<open>The coins a player has collected, counted in a list of \<open>{ coinId, by }\<close>.\<close>

definition collectedBy :: "string \<Rightarrow> (string \<times> string) list \<Rightarrow> nat" where
  "collectedBy pid picked = length (filter (\<lambda>entry. snd entry = pid) picked)"

subsection \<open>Client data\<close>

text \<open>The constants and the global state of \<^verbatim>\<open>client.js\<close> (lines 10-49, 238).\<close>

definition CLIENT_SEND_RATE :: real where "CLIENT_SEND_RATE = 50"
definition INTERPOLATION_DELAY :: int where "INTERPOLATION_DELAY = 220"
definition SNAPSHOT_BUFFER_MS :: int where "SNAPSHOT_BUFFER_MS = 2000"

record pendingInput =
  pi_seq :: int
  pi_dx :: real
  pi_dy :: real
  pi_ts :: int

record localState =
  l_x :: real
  l_y :: real
  l_score :: int
  l_name :: json

record keyState =
  k_up :: bool
  k_down :: bool
  k_left :: bool
  k_right :: bool

record client =
  myId :: "string option"
  joined :: bool
  keys :: keyState
  currentInput :: "real \<times> real"
  inputSeq :: int
  pendingInputs :: "pendingInput list"
  localSt :: localState
  snapshotBuffer :: "snapshot list"
  lastFrameTs :: real

text \<open>The module's initial state; \<open>localState\<close> starts at the centre of the canvas.\<close>

definition initialClient :: "real \<Rightarrow> real \<Rightarrow> real \<Rightarrow> client" where
  "initialClient canvasW canvasH now =
     \<lparr>myId = None, joined = False,
      keys = \<lparr>k_up = False, k_down = False, k_left = False, k_right = False\<rparr>,
      currentInput = (0, 0), inputSeq = 0, pendingInputs = [],
      localSt = \<lparr>l_x = canvasW / 2, l_y = canvasH / 2, l_score = 0, l_name = JStr []\<rparr>,
      snapshotBuffer = [], lastFrameTs = now\<rparr>"

subsection \<open>Client: input, prediction and reconciliation\<close>

text \<open>
  \<^verbatim>\<open>client.js\<close>: the key handlers and \<open>updateCurrentInputFromKeys\<close> (lines 200-224), the
  input sender (227-235), \<open>localPredictionStep\<close> (239-254, the canvas size an argument),
  \<open>processSnapshotForReconciliation\<close> (144-190), \<open>pushSnapshot\<close> (52-56),
  \<open>handleServerMessage\<close> (112-141), the \<open>close\<close> handler (80-86) and \<open>sendJoin\<close> (406-411).
  What a function writes to the page only (status line, score board, RTT) is left out,
  but for whether computing it throws.
\<close>

definition updateCurrentInputFromKeys :: "client \<Rightarrow> client" where
  "updateCurrentInputFromKeys c =
     (let dy0 = (if k_up (keys c) then 0 - 1 else 0);
          dy = (if k_down (keys c) then dy0 + 1 else dy0);
          dx0 = (if k_left (keys c) then 0 - 1 else 0);
          dx = (if k_right (keys c) then dx0 + 1 else dx0)
      in c\<lparr>currentInput := (dx, dy)\<rparr>)"

text \<open>\<open>keydown\<close> and \<open>keyup\<close>, with the key state the handler leaves.\<close>

definition onKey :: "keyState \<Rightarrow> client \<Rightarrow> client" where
  "onKey ks c = updateCurrentInputFromKeys (c\<lparr>keys := ks\<rparr>)"

text \<open>
  The input sender, every \<open>CLIENT_SEND_RATE\<close> ms. \<open>wsOpen\<close> is
  \<open>ws && ws.readyState === WebSocket.OPEN\<close>.
\<close>

definition sendInput :: "int \<Rightarrow> bool \<Rightarrow> client \<Rightarrow> client" where
  "sendInput now wsOpen c =
     (if \<not> wsOpen then c
      else if \<not> joined c then c
      else
        (let c1 = c\<lparr>inputSeq := inputSeq c + 1\<rparr>
         in c1\<lparr>pendingInputs := pendingInputs c1 @
                 [\<lparr>pi_seq = inputSeq c1, pi_dx = fst (currentInput c1),
                   pi_dy = snd (currentInput c1), pi_ts = now\<rparr>]\<rparr>))"

definition localPredictionStep :: "real \<Rightarrow> real \<Rightarrow> real \<Rightarrow> client \<Rightarrow> client" where
  "localPredictionStep canvasW canvasH now c =
     (let dt = (now - lastFrameTs c) / 1000;
          n = normalizeIntent (fst (currentInput c)) (snd (currentInput c));
          l = localSt c;
          x1 = l_x l + fst n * PLAYER_SPEED * dt;
          y1 = l_y l + snd n * PLAYER_SPEED * dt
      in c\<lparr>lastFrameTs := now,
           localSt := l\<lparr>l_x := max 0 (min canvasW x1), l_y := max 0 (min canvasH y1)\<rparr>\<rparr>)"

text \<open>The body of the replay loop: one pending input, applied for \<open>CLIENT_SEND_RATE\<close> ms.\<close>

definition replayInput :: "localState \<Rightarrow> pendingInput \<Rightarrow> localState" where
  "replayInput l inp =
     (let dt = CLIENT_SEND_RATE / 1000;
          n = normalizeIntent (pi_dx inp) (pi_dy inp)
      in l\<lparr>l_x := l_x l + fst n * PLAYER_SPEED * dt,
           l_y := l_y l + snd n * PLAYER_SPEED * dt\<rparr>)"

text \<open>
  \<open>updateScoresDisplay\<close> (lines 193-197) maps every listed player to
  \<open>`${p.name.slice(0,8)}:${p.score}`\<close>: it throws when a name has no method \<open>slice\<close> or the
  slice cannot be converted to a string.
\<close>

definition updateScoresDisplay :: "entity list \<Rightarrow> error + unit" where
  "updateScoresDisplay playersArr =
     (if list_all (\<lambda>p. canSliceToString (e_name p)) playersArr then Inr () else Inl TypeError)"

text \<open>
  The body of \<open>processSnapshotForReconciliation\<close> from \<open>ackSeq\<close> on (lines 152-189): the
  acknowledged inputs are shifted off, the position is set to the server's and the rest
  replayed, the score is taken over.
\<close>

definition reconcile :: "entity \<Rightarrow> client \<Rightarrow> client" where
  "reconcile serverPlayer c =
     (let ackSeq = orZero (e_lastInputSeq serverPlayer);
          pending = dropWhile (\<lambda>inp. real_of_int (pi_seq inp) \<le> ackSeq) (pendingInputs c);
          serverX = e_x serverPlayer;
          serverY = e_y serverPlayer;
          l = localSt c;
          dx = serverX - l_x l;
          dy = serverY - l_y l;
          dist2 = dx * dx + dy * dy;
          l1 = (if dist2 > 1 / 10000
                then foldl replayInput (l\<lparr>l_x := serverX, l_y := serverY\<rparr>) pending
                else l)
      in c\<lparr>pendingInputs := pending, localSt := l1\<lparr>l_score := e_score serverPlayer\<rparr>\<rparr>)"

text \<open>
  The whole function: the score board is written (line 150) once the client's own entry
  is found and before anything is reconciled.
\<close>

definition processSnapshotForReconciliation :: "snapshot \<Rightarrow> client \<Rightarrow> client outcome" where
  "processSnapshotForReconciliation snap c =
     (if \<not> joined c \<or> myId c = None \<or> myId c = Some [] then Inr c
      else
        (case find (\<lambda>p. Some (e_id p) = myId c) (snapPlayers snap) of
           None \<Rightarrow> Inr c
         | Some serverPlayer \<Rightarrow>
             (case updateScoresDisplay (snapPlayers snap) of
                Inl err \<Rightarrow> Inl (err, c)
              | Inr u \<Rightarrow> Inr (reconcile serverPlayer c))))"

definition pushSnapshot :: "int \<Rightarrow> snapshot \<Rightarrow> client \<Rightarrow> client" where
  "pushSnapshot now snap c =
     c\<lparr>snapshotBuffer :=
         dropWhile (\<lambda>sn. serverTime sn < now - SNAPSHOT_BUFFER_MS) (snapshotBuffer c @ [snap])\<rparr>"

fun handleServerMessage :: "int \<Rightarrow> packet \<Rightarrow> client \<Rightarrow> client outcome" where
  "handleServerMessage now (Welcome t) c = Inr c"
| "handleServerMessage now (JoinAck i t w h ps cs) c =
     (let c1 = c\<lparr>myId := Some i, joined := True\<rparr>
      in case find (\<lambda>p. e_id p = i) ps of
           None \<Rightarrow> Inr c1
         | Some me \<Rightarrow>
             Inr (c1\<lparr>localSt := \<lparr>l_x = e_x me, l_y = e_y me, l_score = e_score me, l_name = e_name me\<rparr>\<rparr>))"
| "handleServerMessage now (JoinReject reason) c = Inr c"
| "handleServerMessage now (Pong ts t) c = Inr c"
| "handleServerMessage now (SnapshotPkt snap) c =
     processSnapshotForReconciliation snap (pushSnapshot now snap c)"

text \<open>The socket's \<open>close\<close> event.\<close>

definition onSocketClose :: "client \<Rightarrow> client" where
  "onSocketClose c = c\<lparr>myId := None, joined := False\<rparr>"

text \<open>\<open>sendJoin\<close> stores the name typed (\<open>nameField.value || 'Player'\<close>).\<close>

definition sendJoin :: "string \<Rightarrow> client \<Rightarrow> client" where
  "sendJoin nm c =
     c\<lparr>localSt := (localSt c)\<lparr>l_name := JStr (if nm = [] then ''Player'' else nm)\<rparr>\<rparr>"

datatype clientEvent =
    Key keyState
  | SendInput int bool
  | Frame real real real
  | Receive int packet
  | SocketClose
  | SendJoin string

text \<open>
  One event of the page. An exception that escapes the \<open>message\<close> listener is reported and
  the page lives on in the state the listener left.
\<close>

fun clientStep :: "clientEvent \<Rightarrow> client \<Rightarrow> client" where
  "clientStep (Key ks) c = onKey ks c"
| "clientStep (SendInput now wsOpen) c = sendInput now wsOpen c"
| "clientStep (Frame canvasW canvasH now) c = localPredictionStep canvasW canvasH now c"
| "clientStep (Receive now pkt) c = stateOf (handleServerMessage now pkt c)"
| "clientStep SocketClose c = onSocketClose c"
| "clientStep (SendJoin nm) c = sendJoin nm c"

inductive clientReachable :: "client \<Rightarrow> bool" where
  client_init: "clientReachable (initialClient canvasW canvasH now)"
| client_step: "clientReachable c \<Longrightarrow> clientReachable (clientStep ev c)"

subsection \<open>Client: interpolation of remote entities\<close>

text \<open>\<^verbatim>\<open>client.js\<close>: \<open>lerp\<close> (line 59) and \<open>getRemoteEntityPositions\<close> (257-294).\<close>

definition lerp :: "real \<Rightarrow> real \<Rightarrow> real \<Rightarrow> real" where
  "lerp a b t = a + (b - a) * t"

text \<open>What \<open>getRemoteEntityPositions\<close> gives per identifier: \<open>{ x, y, score, name }\<close>.\<close>

record rendered =
  r_x :: real
  r_y :: real
  r_score :: int
  r_name :: json

definition renderedOf :: "entity \<Rightarrow> rendered" where
  "renderedOf p = \<lparr>r_x = e_x p, r_y = e_y p, r_score = e_score p, r_name = e_name p\<rparr>"

text \<open>
  The search loop: the first index \<open>i\<close> with
  \<open>buffer[i].serverTime <= renderTime <= buffer[i+1].serverTime\<close>, as the pair of snapshots.
\<close>

fun findBracket :: "int \<Rightarrow> snapshot list \<Rightarrow> (snapshot \<times> snapshot) option" where
  "findBracket renderTime (a # b # rest) =
     (if serverTime a \<le> renderTime \<and> renderTime \<le> serverTime b then Some (a, b)
      else findBracket renderTime (b # rest))"
| "findBracket renderTime [a] = None"
| "findBracket renderTime [] = None"

text \<open>\<open>players.forEach(p => m[p.id] = p)\<close> on an empty object.\<close>

definition byId :: "entity list \<Rightarrow> (string \<times> entity) list" where
  "byId ps = fold (\<lambda>p m. AList.update (e_id p) p m) ps []"

text \<open>The body of \<open>allIds.forEach\<close>.\<close>

definition interpolateEntity ::
  "(string \<times> entity) list \<Rightarrow> (string \<times> entity) list \<Rightarrow> real \<Rightarrow> string \<Rightarrow> rendered" where
  "interpolateEntity mapA mapB t i =
     (let pa = (case map_of mapA i of
                  Some p \<Rightarrow> renderedOf p
                | None \<Rightarrow>
                    \<lparr>r_x = 0, r_y = 0, r_score = 0,
                     r_name = (case map_of mapB i of
                                 None \<Rightarrow> JStr ''unknown''
                               | Some q \<Rightarrow> if truthy (e_name q) then e_name q else JStr ''unknown'')\<rparr>);
          pb = (case map_of mapB i of Some q \<Rightarrow> renderedOf q | None \<Rightarrow> pa)
      in \<lparr>r_x = lerp (r_x pa) (r_x pb) t,
          r_y = lerp (r_y pa) (r_y pb) t,
          r_score = (if r_score pb \<noteq> 0 then r_score pb else r_score pa),
          r_name = (if truthy (r_name pa) then r_name pa
                    else if truthy (r_name pb) then r_name pb else JStr ''unknown'')\<rparr>)"

definition getRemoteEntityPositions :: "int \<Rightarrow> snapshot list \<Rightarrow> (string \<times> rendered) list option" where
  "getRemoteEntityPositions renderTime buffer =
     (if length buffer = 0 then None
      else
        (case findBracket renderTime buffer of
           None \<Rightarrow>
             Some (fold (\<lambda>p m. AList.update (e_id p) (renderedOf p) m) (snapPlayers (last buffer)) [])
         | Some (a, b) \<Rightarrow>
             (let t = real_of_int (renderTime - serverTime a)
                        / real_of_int (max 1 (serverTime b - serverTime a));
                  mapA = byId (snapPlayers a);
                  mapB = byId (snapPlayers b);
                  allIds = map fst mapA @ filter (\<lambda>k. k \<notin> set (map fst mapA)) (map fst mapB)
              in Some (map (\<lambda>i. (i, interpolateEntity mapA mapB t i)) allIds))))"

section \<open>Notions the statements use\<close>

subsection \<open>Observing a run of input messages\<close>

text \<open>
  The messages of a list, handled in order on one socket, that changed the registry of
  players: by the code of \<open>handleClientMessage\<close>, the inputs it stored.
\<close>

fun appliedInputs :: "(nat \<Rightarrow> env) \<Rightarrow> nat \<Rightarrow> ws \<Rightarrow> clientMsg list \<Rightarrow> server \<Rightarrow> clientMsg list" where
  "appliedInputs envs k w [] s = []"
| "appliedInputs envs k w (m # ms) s =
     (let s' = stateOf (handleClientMessage (envs k) w m s)
      in (if players s' = players s then [] else [m]) @ appliedInputs envs (Suc k) w ms s')"

fun inputSeqOf :: "clientMsg \<Rightarrow> real" where
  "inputSeqOf (Input mseq mdx mdy mts) = orZero mseq"
| "inputSeqOf m = 0"

text \<open>
  The sequence numbers of a list that are strictly greater than every one before them and
  than \<open>lastSeq\<close>.
\<close>

fun risingSeqs :: "real \<Rightarrow> real list \<Rightarrow> real list" where
  "risingSeqs lastSeq [] = []"
| "risingSeqs lastSeq (n # ns) =
     (if n > lastSeq then n # risingSeqs n ns else risingSeqs lastSeq ns)"

subsection \<open>Registries and intents\<close>

text \<open>Two registries with the same keys in the same order and the same players up to their scores.\<close>

definition sameButScore :: "(string \<times> player) list \<Rightarrow> (string \<times> player) list \<Rightarrow> bool" where
  "sameButScore ps ps' \<longleftrightarrow>
     map (\<lambda>(k, p). (k, p\<lparr>p_score := 0\<rparr>)) ps = map (\<lambda>(k, p). (k, p\<lparr>p_score := 0\<rparr>)) ps'"

text \<open>
  The intent vector a tick reads for a player: \<open>Number(input.dx) || 0\<close> and
  \<open>Number(input.dy) || 0\<close>, of \<open>lastInput\<close> or of \<open>{ dx: 0, dy: 0 }\<close> when there is none.
\<close>

definition intentVector :: "intent option \<Rightarrow> real \<times> real" where
  "intentVector li =
     (orZero (case li of None \<Rightarrow> Some 0 | Some i \<Rightarrow> i_dx i),
      orZero (case li of None \<Rightarrow> Some 0 | Some i \<Rightarrow> i_dy i))"

subsection \<open>Who a coin goes to\<close>

text \<open>
  The first player, in the order of the registry, whose squared distance to the coin is
  within the squared pickup radius.
\<close>

definition firstInRange :: "coin \<Rightarrow> (string \<times> player) list \<Rightarrow> string option" where
  "firstInRange c ps = map_option fst (find (\<lambda>kp. inRange c (snd kp)) ps)"

text \<open>Each coin of a list that has such a player, with that player.\<close>

fun awards :: "(string \<times> coin) list \<Rightarrow> (string \<times> player) list \<Rightarrow> (string \<times> string) list" where
  "awards [] ps = []"
| "awards ((coinId, c) # todo) ps =
     (case firstInRange c ps of
        None \<Rightarrow> awards todo ps
      | Some pid \<Rightarrow> (coinId, pid) # awards todo ps)"

text \<open>
  The registry's keys are distinct, and every player's score is the number of coins the
  list holds for that player.
\<close>

definition scoresMatch :: "server \<Rightarrow> (string \<times> string) list \<Rightarrow> bool" where
  "scoresMatch s picked \<longleftrightarrow>
     distinct (map fst (players s))
     \<and> (\<forall>pid p. map_of (players s) pid = Some p \<longrightarrow> p_score p = int (collectedBy pid picked))"

section \<open>Concrete states\<close>

subsection \<open>Servers\<close>

text \<open>
  One connection on socket 1 at time 0, whose join message is handled at time 1000: the
  state the closed instances of the theorems below start from.
\<close>

definition env0 :: env where
  "env0 = \<lparr>env_now = 1000, env_jitter = 1 / 2, env_uuid = ''a1b2c3'', env_x = 1 / 2, env_y = 1 / 2\<rparr>"

definition joinedServer :: server where
  "joinedServer =
     stateOf (handleClientMessage env0 1 (Join (Some (JStr ''Ann'')))
                (onConnection (1 / 2) 0 1 (initialServer 0)))"

text \<open>
  The same player later in the game: 10 units from the right edge, holding the intent
  \<open>(1, 0)\<close>. And the draws of one tick at time 2000, with socket 1 open.
\<close>

definition borderServer :: server where
  "borderServer =
     joinedServer\<lparr>players :=
       [(''a1b2c3'', (newPlayer env0 (Some (JStr ''Ann'')))
          \<lparr>p_x := 790,
           p_lastInput := Some \<lparr>i_seq = 7, i_dx = Some 1, i_dy = Some 0, i_ts = Some 1900\<rparr>\<rparr>)]\<rparr>"

definition tickEnv0 :: tickEnv where
  "tickEnv0 = \<lparr>t_now = 2000, t_uuid = ''c0ffee'', t_x = 1 / 2, t_y = 1 / 2, t_clients = [(1, True, 1 / 2)]\<rparr>"

text \<open>
  Two players 10 units apart and three coins: one within the pickup radius of both players,
  one within the radius of the second player only, one far from both.
\<close>

definition twoPlayers :: "(string \<times> player) list" where
  "twoPlayers =
     [(''A'', (newPlayer env0 (Some (JStr ''Ann'')))\<lparr>p_id := ''A'', p_x := 100, p_y := 100\<rparr>),
      (''B'', (newPlayer env0 (Some (JStr ''Bob'')))\<lparr>p_id := ''B'', p_x := 110, p_y := 100\<rparr>)]"

definition threeCoins :: "(string \<times> coin) list" where
  "threeCoins =
     [(''c1'', \<lparr>c_id = ''c1'', c_x = 105, c_y = 100\<rparr>),
      (''c2'', \<lparr>c_id = ''c2'', c_x = 120, c_y = 100\<rparr>),
      (''c3'', \<lparr>c_id = ''c3'', c_x = 500, c_y = 500\<rparr>)]"

text \<open>
  The draws of a second join, on socket 2, and a server whose registry is full: eight
  players.
\<close>

definition env1 :: env where
  "env1 = \<lparr>env_now = 3000, env_jitter = 1 / 2, env_uuid = ''d4e5f6'', env_x = 1 / 4, env_y = 3 / 4\<rparr>"

definition fullServer :: server where
  "fullServer =
     joinedServer\<lparr>players :=
       map (\<lambda>k. (k, (newPlayer env0 None)\<lparr>p_id := k\<rparr>))
         [''p1'', ''p2'', ''p3'', ''p4'', ''p5'', ''p6'', ''p7'', ''p8'']\<rparr>"

text \<open>
  The join message \<open>{"type":"join","name":{"toString":1}}\<close>; the small server after a
  second socket has connected at time 2000 and sent that message at time 2500; the same
  after the inbound delivery of time 3000; and after the console's \<open>spawn\<close> has then drawn
  the spot the new player stands on. The draws of a tick at time 3050.
\<close>

definition oddJoin :: clientMsg where
  "oddJoin = Join (Some (JObj [(''toString'', JNum 1)]))"

definition oddJoinQueued :: server where
  "oddJoinQueued = onMessage (1 / 2) 2500 2 (Some oddJoin) (onConnection (1 / 2) 2000 2 joinedServer)"

definition oddJoined :: server where
  "oddJoined = processIncomingQueue (\<lambda>k. env1) 3000 oddJoinQueued"

definition oddCoin :: server where
  "oddCoin = maybeSpawnCoin ''c0ffee'' (1 / 4) (3 / 4) oddJoined"

definition tickEnv1 :: tickEnv where
  "tickEnv1 = \<lparr>t_now = 3050, t_uuid = ''beef'', t_x = 1 / 2, t_y = 1 / 2,
               t_clients = [(1, True, 1 / 2), (2, True, 1 / 2)]\<rparr>"

text \<open>The console's \<open>spawn\<close> on the small server, drawing the very spot the player stands on.\<close>

definition spawnedServer :: server where
  "spawnedServer = maybeSpawnCoin ''c0ffee'' (1 / 2) (1 / 2) joinedServer"

text \<open>
  Two sockets connecting in the same millisecond, at time 0; the \<open>welcome\<close> packet of the
  first draws the jitter +9, that of the second the jitter -10.
\<close>

definition twoConnections :: server where
  "twoConnections = onConnection 0 0 2 (onConnection (19 / 20) 0 1 (initialServer 0))"

subsection \<open>A client and snapshots\<close>

text \<open>
  A client acknowledged as \<open>me01\<close> at \<open>(10, 10)\<close>, holding the right arrow, that has sent
  the inputs 1, 2 and 3; and a snapshot in which the server, having accepted input 1,
  has this player at \<open>(100, 50)\<close> with 4 points.
\<close>

definition client0 :: client where
  "client0 =
     clientStep (SendInput 150 True)
       (clientStep (SendInput 100 True)
          (clientStep (SendInput 50 True)
             (clientStep (Key \<lparr>k_up = False, k_down = False, k_left = False, k_right = True\<rparr>)
                (clientStep
                   (Receive 0
                      (JoinAck ''me01'' 0 MAP_W MAP_H
                         [\<lparr>e_id = ''me01'', e_name = JStr ''Ann'', e_x = 10, e_y = 10, e_score = 0,
                           e_lastInputSeq = None\<rparr>] []))
                   (initialClient 800 600 0)))))"

definition snapshot0 :: snapshot where
  "snapshot0 =
     \<lparr>snapTick = 9, serverTime = 160,
      snapPlayers =
        [\<lparr>e_id = ''other'', e_name = JStr ''Bob'', e_x = 300, e_y = 300, e_score = 1,
          e_lastInputSeq = Some 12\<rparr>,
         \<lparr>e_id = ''me01'', e_name = JStr ''Ann'', e_x = 100, e_y = 50, e_score = 4,
          e_lastInputSeq = Some 1\<rparr>],
      snapCoins = []\<rparr>"

text \<open>A later snapshot that agrees with the client's position and acknowledges input 3.\<close>

definition snapshot1 :: snapshot where
  "snapshot1 =
     \<lparr>snapTick = 12, serverTime = 310,
      snapPlayers =
        [\<lparr>e_id = ''me01'', e_name = JStr ''Ann'', e_x = 10, e_y = 10, e_score = 5,
          e_lastInputSeq = Some 3\<rparr>],
      snapCoins = []\<rparr>"

text \<open>
  The first snapshot again, but the other player has joined with \<open>{"type":"join","name":7}\<close>:
  the server stores the number (it is truthy), prints it in its log and lists it in every
  snapshot.
\<close>

definition snapshot7 :: snapshot where
  "snapshot7 =
     \<lparr>snapTick = 9, serverTime = 160,
      snapPlayers =
        [\<lparr>e_id = ''other'', e_name = JNum 7, e_x = 300, e_y = 300, e_score = 1,
          e_lastInputSeq = Some 12\<rparr>,
         \<lparr>e_id = ''me01'', e_name = JStr ''Ann'', e_x = 100, e_y = 50, e_score = 4,
          e_lastInputSeq = Some 1\<rparr>],
      snapCoins = []\<rparr>"

text \<open>The client after it has also pressed the up arrow and sent input 4, the diagonal \<open>(1, -1)\<close>.\<close>

definition client1 :: client where
  "client1 =
     clientStep (SendInput 200 True)
       (clientStep (Key \<lparr>k_up = True, k_down = False, k_left = False, k_right = True\<rparr>) client0)"

text \<open>
  Two buffered snapshots, 100 ms apart: \<open>a\<close> is in both and moves from \<open>(20, 40)\<close> to
  \<open>(60, 80)\<close>; \<open>b\<close> has joined in between and stands at \<open>(100, 50)\<close> in the later one.
\<close>

definition snapA :: snapshot where
  "snapA =
     \<lparr>snapTick = 2, serverTime = 100,
      snapPlayers =
        [\<lparr>e_id = ''a'', e_name = JStr ''Ann'', e_x = 20, e_y = 40, e_score = 1, e_lastInputSeq = Some 2\<rparr>],
      snapCoins = []\<rparr>"

definition snapB :: snapshot where
  "snapB =
     \<lparr>snapTick = 4, serverTime = 200,
      snapPlayers =
        [\<lparr>e_id = ''a'', e_name = JStr ''Ann'', e_x = 60, e_y = 80, e_score = 2, e_lastInputSeq = Some 4\<rparr>,
         \<lparr>e_id = ''b'', e_name = JStr ''Bob'', e_x = 100, e_y = 50, e_score = 3, e_lastInputSeq = Some 1\<rparr>],
      snapCoins = []\<rparr>"

text \<open>A third snapshot, another 100 ms later, after \<open>b\<close> has left.\<close>

definition snapC :: snapshot where
  "snapC =
     \<lparr>snapTick = 6, serverTime = 300,
      snapPlayers =
        [\<lparr>e_id = ''a'', e_name = JStr ''Ann'', e_x = 70, e_y = 90, e_score = 2, e_lastInputSeq = Some 6\<rparr>],
      snapCoins = []\<rparr>"

section \<open>Properties\<close>

subsection \<open>Auxiliary facts\<close>

lemma orZero_simps: "orZero None = 0" "orZero (Some r) = r"
  by (simp_all add: orZero_def)

lemma stateOf_simps: "stateOf (Inr s) = s" "stateOf (Inl (err, s)) = s"
  by (simp_all add: stateOf_def)

lemma shiftReady_sorted:
  "sorted (map deliverAt q) \<Longrightarrow>
   shiftReady now q =
     (filter (\<lambda>item. deliverAt item \<le> now) q, filter (\<lambda>item. \<not> deliverAt item \<le> now) q)"
proof (induction q)
  case Nil
  show ?case by simp
next
  case (Cons item q)
  show ?case
  proof (cases "deliverAt item \<le> now")
    case True
    with Cons show ?thesis by simp
  next
    case False
    from Cons.prems have "\<forall>later \<in> set q. deliverAt item \<le> deliverAt later" by simp
    with False have late: "\<forall>later \<in> set q. \<not> deliverAt later \<le> now" by force
    then have "filter (\<lambda>i. deliverAt i \<le> now) q = []" "filter (\<lambda>i. \<not> deliverAt i \<le> now) q = q"
      by (simp_all add: filter_empty_conv filter_id_conv)
    with False show ?thesis by simp
  qed
qed

lemma shiftReady_split: "shiftReady now q = (out, rest) \<Longrightarrow> q = out @ rest"
  by (induction q arbitrary: out rest) (auto split: if_splits prod.splits)

subsection \<open>The outbound queue\<close>

text \<open>
  C1 (the outbound queue). \<open>sendWithLatency\<close> appends and does not sort, and the flush
  looks at the head only. Two sockets connect in the same millisecond, at time 0, and their
  \<open>welcome\<close> packets draw the jitters +9 and -10: a state the server reaches, with the
  outbound queue \<open>[209, 190]\<close>. The flush at time 200 delivers nothing, though the second
  packet is due since 190; the flush at time 209 delivers the packet due at 209 before the
  one due at 190.
\<close>

theorem outgoing_flush_not_in_deliverAt_order:
  "history twoConnections []
   \<and> map (\<lambda>item. (deliverAt item, sock item)) (outgoingQueue twoConnections) = [(209, 1), (190, 2)]
   \<and> fst (flushOutgoing 200 (\<lambda>w. True) twoConnections) = []
   \<and> fst (flushOutgoing 209 (\<lambda>w. True) twoConnections) = [(1, Welcome 0), (2, Welcome 0)]"
proof -
  let ?s1 = "onConnection (19 / 20) 0 1 (initialServer 0)"
  have "history (initialServer 0) []" by (rule history_init)
  from history_step [OF this, of "Connection (19 / 20) 0 1" ?s1]
  have "history ?s1 []" by simp
  from history_step [OF this, of "Connection 0 0 2" twoConnections]
  have h: "history twoConnections []" by (simp add: twoConnections_def)
  have q: "outgoingQueue twoConnections =
      [\<lparr>deliverAt = 209, sock = 1, payload = Welcome 0\<rparr>,
       \<lparr>deliverAt = 190, sock = 2, payload = Welcome 0\<rparr>]"
    by (simp add: twoConnections_def onConnection_def sendWithLatency_def latencyJitter_def
        LATENCY_JITTER_def ONE_WAY_LATENCY_def initialServer_def)
  from h show ?thesis by (simp add: q flushOutgoing_def)
qed

subsection \<open>Input sequence numbers\<close>

lemma handle_input_bound:
  assumes "map_of (sockets s) w = Some (Some pid)" and "pid \<noteq> []"
    and "map_of (players s) pid = Some p" and "p_lastInput p = Some li"
  shows "handleClientMessage e w (Input mseq mdx mdy mts) s =
           Inr (if orZero mseq \<le> i_seq li then s
                else s\<lparr>players := AList.update pid
                       (acceptInput e (orZero mseq) (max (- 1) (min 1 (orZero mdx)))
                          (max (- 1) (min 1 (orZero mdy))) mts p) (players s)\<rparr>)"
  using assms by (simp add: Let_def)

lemma applied_inputs_rising:
  assumes "map_of (sockets s) w = Some (Some pid)" and "pid \<noteq> []"
    and "map_of (players s) pid = Some p" and "p_lastInput p = Some li"
  shows "map inputSeqOf (appliedInputs envs k w (map (\<lambda>n. Input (Some n) mdx mdy mts) ns) s)
           = risingSeqs (i_seq li) ns"
  using assms
proof (induction ns arbitrary: s p li k)
  case Nil
  show ?case by simp
next
  case (Cons n ns)
  let ?p' = "acceptInput (envs k) n (max (- 1) (min 1 (orZero mdx)))
               (max (- 1) (min 1 (orZero mdy))) mts p"
  let ?s' = "s\<lparr>players := AList.update pid ?p' (players s)\<rparr>"
  have h: "handleClientMessage (envs k) w (Input (Some n) mdx mdy mts) s =
             Inr (if n \<le> i_seq li then s else ?s')"
    using handle_input_bound [OF Cons.prems, of "envs k" "Some n" mdx mdy mts]
    by (simp add: orZero_simps)
  have hs: "stateOf (handleClientMessage (envs k) w (Input (Some n) mdx mdy mts) s) =
             (if n \<le> i_seq li then s else ?s')"
    by (simp only: h stateOf_simps)
  show ?case
  proof (cases "n \<le> i_seq li")
    case True
    with hs Cons.IH [OF Cons.prems] show ?thesis
      by (simp add: orZero_simps Let_def del: handleClientMessage.simps)
  next
    case False
    have changed: "players ?s' \<noteq> players s"
    proof
      assume "players ?s' = players s"
      then have "map_of (players ?s') pid = map_of (players s) pid" by simp
      then have "?p' = p" using Cons.prems(3) by (simp add: update_conv')
      then have "p_lastInput ?p' = p_lastInput p" by simp
      with Cons.prems(4) False show False by (auto simp add: acceptInput_def)
    qed
    have s1: "map_of (sockets ?s') w = Some (Some pid)" using Cons.prems(1) by simp
    have s3: "map_of (players ?s') pid = Some ?p'" by (simp add: update_conv')
    have s4: "p_lastInput ?p' = Some \<lparr>i_seq = n, i_dx = Some (max (- 1) (min 1 (orZero mdx))),
                i_dy = Some (max (- 1) (min 1 (orZero mdy))),
                i_ts = (case mts of None \<Rightarrow> Some (env_now (envs k))
                        | Some t \<Rightarrow> if t = 0 then Some (env_now (envs k)) else Some t)\<rparr>"
      by (simp add: acceptInput_def)
    from Cons.IH [OF s1 Cons.prems(2) s3 s4, of "Suc k"] hs False changed
    show ?thesis by (simp add: orZero_simps Let_def del: handleClientMessage.simps)
  qed
qed

text \<open>
  C2. On a socket bound to a player, an input whose sequence number (\<open>Number(msg.seq) || 0\<close>)
  is strictly greater than the sequence of the player's stored intent replaces that intent
  (with \<open>dx\<close>, \<open>dy\<close> clamped to \<open>[-1, 1]\<close>) and sets \<open>lastSeen\<close>, touching nothing else; any
  other input leaves the whole server state as it was. Over a run, the inputs applied are
  those whose sequence number exceeds all earlier ones; for a player whose last accepted
  sequence is 0, the run \<open>[1, 2, 2, 1, 5, 4]\<close> applies exactly 1, 2 and 5.
\<close>

theorem input_applied_iff_sequence_greater:
  assumes "map_of (sockets s) w = Some (Some pid)" and "pid \<noteq> []"
    and "map_of (players s) pid = Some p" and "p_lastInput p = Some li"
  shows "(i_seq li < orZero mseq \<longrightarrow>
            (\<exists>s' p'. handleClientMessage e w (Input mseq mdx mdy mts) s = Inr s'
               \<and> map_of (players s') pid = Some p'
               \<and> map_option i_seq (p_lastInput p') = Some (orZero mseq)
               \<and> map_option i_dx (p_lastInput p') = Some (Some (max (- 1) (min 1 (orZero mdx))))
               \<and> map_option i_dy (p_lastInput p') = Some (Some (max (- 1) (min 1 (orZero mdy))))
               \<and> p_lastSeen p' = env_now e
               \<and> p_x p' = p_x p \<and> p_y p' = p_y p \<and> p_score p' = p_score p
               \<and> (\<forall>q. q \<noteq> pid \<longrightarrow> map_of (players s') q = map_of (players s) q)
               \<and> coins s' = coins s \<and> sockets s' = sockets s
               \<and> outgoingQueue s' = outgoingQueue s))
       \<and> (orZero mseq \<le> i_seq li \<longrightarrow>
            handleClientMessage e w (Input mseq mdx mdy mts) s = Inr s)
       \<and> map inputSeqOf
            (appliedInputs envs k w (map (\<lambda>n. Input (Some n) mdx mdy mts) ns) s)
            = risingSeqs (i_seq li) ns
       \<and> (i_seq li = 0 \<longrightarrow>
            map inputSeqOf
              (appliedInputs envs k w
                 (map (\<lambda>n. Input (Some n) mdx mdy mts) [1, 2, 2, 1, 5, 4]) s)
            = [1, 2, 5])"
proof -
  have a: "i_seq li < orZero mseq \<longrightarrow>
            (\<exists>s' p'. handleClientMessage e w (Input mseq mdx mdy mts) s = Inr s'
               \<and> map_of (players s') pid = Some p'
               \<and> map_option i_seq (p_lastInput p') = Some (orZero mseq)
               \<and> map_option i_dx (p_lastInput p') = Some (Some (max (- 1) (min 1 (orZero mdx))))
               \<and> map_option i_dy (p_lastInput p') = Some (Some (max (- 1) (min 1 (orZero mdy))))
               \<and> p_lastSeen p' = env_now e
               \<and> p_x p' = p_x p \<and> p_y p' = p_y p \<and> p_score p' = p_score p
               \<and> (\<forall>q. q \<noteq> pid \<longrightarrow> map_of (players s') q = map_of (players s) q)
               \<and> coins s' = coins s \<and> sockets s' = sockets s
               \<and> outgoingQueue s' = outgoingQueue s)"
    using handle_input_bound [OF assms, of e mseq mdx mdy mts]
    by (auto simp add: update_conv' acceptInput_def)
  have b: "orZero mseq \<le> i_seq li \<longrightarrow>
            handleClientMessage e w (Input mseq mdx mdy mts) s = Inr s"
    using handle_input_bound [OF assms, of e mseq mdx mdy mts] by simp
  have c: "map inputSeqOf
            (appliedInputs envs k w (map (\<lambda>n. Input (Some n) mdx mdy mts) ns) s)
            = risingSeqs (i_seq li) ns" for ns
    by (rule applied_inputs_rising [OF assms])
  have d: "risingSeqs 0 [1, 2, 2, 1, 5, 4] = [1, 2, 5]" by simp
  from a b c [of ns] c [of "[1, 2, 2, 1, 5, 4]"] d show ?thesis by simp
qed

lemma newPlayer_name: "truthy n \<Longrightarrow> p_name (newPlayer e (Some n)) = n"
  by (simp add: newPlayer_def)

lemma joinedServer_eq:
  "joinedServer =
     \<lparr>players = [(''a1b2c3'', newPlayer env0 (Some (JStr ''Ann'')))], coins = [],
      sockets = [(1, Some ''a1b2c3'')], incomingQueue = [],
      outgoingQueue =
        [\<lparr>deliverAt = 200, sock = 1, payload = Welcome 0\<rparr>,
         \<lparr>deliverAt = 1200, sock = 1,
          payload = JoinAck ''a1b2c3'' 1000 MAP_W MAP_H
                      [playerView (newPlayer env0 (Some (JStr ''Ann'')))] []\<rparr>],
      serverTick = 0, lastCoinSpawn = 0\<rparr>"
  by (simp add: joinedServer_def onConnection_def initialServer_def sendWithLatency_def
      latencyJitter_def ONE_WAY_LATENCY_def MAX_PLAYERS_def env0_def Let_def stateOf_simps
      newPlayer_name)

theorem input_applied_iff_sequence_greater_witness:
  "map_of (sockets joinedServer) 1 = Some (Some ''a1b2c3'')
   \<and> map_of (players joinedServer) ''a1b2c3'' = Some (newPlayer env0 (Some (JStr ''Ann'')))
   \<and> map_option i_seq (p_lastInput (newPlayer env0 (Some (JStr ''Ann'')))) = Some 0
   \<and> (\<exists>s' p'. handleClientMessage env0 1 (Input (Some 3) (Some 5) None None) joinedServer = Inr s'
         \<and> map_of (players s') ''a1b2c3'' = Some p'
         \<and> map_option i_seq (p_lastInput p') = Some 3
         \<and> map_option i_dx (p_lastInput p') = Some (Some 1)
         \<and> map_option i_dy (p_lastInput p') = Some (Some 0)
         \<and> p_lastSeen p' = 1000)
   \<and> handleClientMessage env0 1 (Input (Some 0) (Some 1) None None) joinedServer = Inr joinedServer
   \<and> handleClientMessage env0 1 (Input None (Some 1) None None) joinedServer = Inr joinedServer
   \<and> map inputSeqOf
        (appliedInputs (\<lambda>k. env0) 0 1
           (map (\<lambda>n. Input (Some n) (Some 1) None None) [1, 2, 2, 1, 5, 4]) joinedServer)
        = [1, 2, 5]"
proof -
  let ?li = "\<lparr>i_seq = 0, i_dx = Some 0, i_dy = Some 0, i_ts = None\<rparr>"
  have h1: "map_of (sockets joinedServer) 1 = Some (Some ''a1b2c3'')"
    by (simp add: joinedServer_eq)
  have h2: "''a1b2c3'' \<noteq> []" by simp
  have h3: "map_of (players joinedServer) ''a1b2c3'' = Some (newPlayer env0 (Some (JStr ''Ann'')))"
    by (simp add: joinedServer_eq)
  have h4: "p_lastInput (newPlayer env0 (Some (JStr ''Ann''))) = Some ?li"
    by (simp add: newPlayer_def)
  note t = input_applied_iff_sequence_greater [OF h1 h2 h3 h4]
  have envnow: "env_now env0 = 1000" by (simp add: env0_def)
  from t [where mseq = "Some 3" and e = env0 and mdx = "Some 5" and mdy = None and mts = None
      and envs = "\<lambda>k. env0" and k = 0 and ns = "[]"] envnow
  have a: "\<exists>s' p'. handleClientMessage env0 1 (Input (Some 3) (Some 5) None None) joinedServer = Inr s'
         \<and> map_of (players s') ''a1b2c3'' = Some p'
         \<and> map_option i_seq (p_lastInput p') = Some 3
         \<and> map_option i_dx (p_lastInput p') = Some (Some 1)
         \<and> map_option i_dy (p_lastInput p') = Some (Some 0)
         \<and> p_lastSeen p' = 1000"
    by (auto simp add: orZero_simps simp del: handleClientMessage.simps appliedInputs.simps)
  from t [where mseq = "Some 0" and e = env0 and mdx = "Some 1" and mdy = None and mts = None
      and envs = "\<lambda>k. env0" and k = 0 and ns = "[]"]
  have b: "handleClientMessage env0 1 (Input (Some 0) (Some 1) None None) joinedServer = Inr joinedServer"
    by (simp add: orZero_simps del: handleClientMessage.simps appliedInputs.simps)
  from t [where mseq = None and e = env0 and mdx = "Some 1" and mdy = None and mts = None
      and envs = "\<lambda>k. env0" and k = 0 and ns = "[]"]
  have c: "handleClientMessage env0 1 (Input None (Some 1) None None) joinedServer = Inr joinedServer"
    by (simp add: orZero_simps del: handleClientMessage.simps appliedInputs.simps)
  from t [where mseq = "Some 0" and e = env0 and mdx = "Some 1" and mdy = None and mts = None
      and envs = "\<lambda>k. env0" and k = 0 and ns = "[]"]
  have d: "map inputSeqOf
        (appliedInputs (\<lambda>k. env0) 0 1
           (map (\<lambda>n. Input (Some n) (Some 1) None None) [1, 2, 2, 1, 5, 4]) joinedServer)
        = [1, 2, 5]"
    by (simp del: handleClientMessage.simps appliedInputs.simps)
  from h1 h3 h4 a b c d show ?thesis
    by (simp del: handleClientMessage.simps appliedInputs.simps)
qed

subsection \<open>What a tick does to the registry of players\<close>

lemma sameButScore_refl: "sameButScore ps ps"
  by (simp add: sameButScore_def)

lemma sameButScore_trans: "sameButScore ps qs \<Longrightarrow> sameButScore qs rs \<Longrightarrow> sameButScore ps rs"
  by (simp add: sameButScore_def)

lemma sameButScore_Cons:
  "sameButScore ((k, p) # ps) ((k', p') # ps') \<longleftrightarrow>
     k = k' \<and> p\<lparr>p_score := 0\<rparr> = p'\<lparr>p_score := 0\<rparr> \<and> sameButScore ps ps'"
  by (simp add: sameButScore_def)

lemma sameButScore_keys: "sameButScore ps ps' \<Longrightarrow> map fst ps = map fst ps'"
proof -
  assume "sameButScore ps ps'"
  then have "map fst (map (\<lambda>(k, p). (k, p\<lparr>p_score := 0\<rparr>)) ps) =
             map fst (map (\<lambda>(k, p). (k, p\<lparr>p_score := 0\<rparr>)) ps')"
    by (simp only: sameButScore_def)
  then show ?thesis by (simp add: case_prod_unfold comp_def)
qed

lemma sameButScore_member:
  "sameButScore ps ps' \<Longrightarrow> (k, p') \<in> set ps' \<Longrightarrow>
   \<exists>p. (k, p) \<in> set ps \<and> p\<lparr>p_score := 0\<rparr> = p'\<lparr>p_score := 0\<rparr>"
proof (induction ps arbitrary: ps')
  case Nil
  then show ?case by (simp add: sameButScore_def)
next
  case (Cons a ps)
  obtain k0 p0 where a: "a = (k0, p0)" by (cases a)
  from Cons.prems obtain b qs where ps': "ps' = b # qs"
    by (cases ps') (auto simp add: sameButScore_def)
  obtain k1 p1 where b: "b = (k1, p1)" by (cases b)
  from Cons.prems(1) have h: "k0 = k1" "p0\<lparr>p_score := 0\<rparr> = p1\<lparr>p_score := 0\<rparr>" "sameButScore ps qs"
    by (simp_all add: a b ps' sameButScore_Cons)
  show ?case
  proof (cases "(k, p') = b")
    case True
    with h a b show ?thesis by auto
  next
    case False
    with Cons.prems(2) ps' have "(k, p') \<in> set qs" by simp
    from Cons.IH [OF h(3) this] show ?thesis by auto
  qed
qed

lemma pickup_sameButScore: "pickup c ps = (ps', r) \<Longrightarrow> sameButScore ps ps'"
proof (induction ps arbitrary: ps' r)
  case Nil
  then show ?case by (simp add: sameButScore_def)
next
  case (Cons a ps)
  obtain k p where a: "a = (k, p)" by (cases a)
  show ?case
  proof (cases "inRange c p")
    case True
    with Cons.prems a have "ps' = (k, p\<lparr>p_score := p_score p + 1\<rparr>) # ps" by simp
    then show ?thesis by (simp add: a sameButScore_Cons sameButScore_refl)
  next
    case False
    obtain qs r0 where q: "pickup c ps = (qs, r0)" by (cases "pickup c ps")
    with False Cons.prems a have "ps' = (k, p) # qs" by simp
    with Cons.IH [OF q] show ?thesis by (simp add: a sameButScore_Cons)
  qed
qed

lemma pickup_name:
  "pickup c ps = (ps', Some (pid, nm)) \<Longrightarrow> \<exists>p. (pid, p) \<in> set ps \<and> nm = p_name p"
  by (induction ps arbitrary: ps') (auto split: if_splits prod.splits)

lemma resolveCoins_sameButScore:
  "stateOf (resolveCoins todo (ps, cs, pk)) = (ps', cs', pk') \<Longrightarrow> sameButScore ps ps'"
proof (induction todo arbitrary: ps cs pk)
  case Nil
  then show ?case by (simp add: sameButScore_refl stateOf_simps)
next
  case (Cons a todo)
  obtain coinId c where a: "a = (coinId, c)" by (cases a)
  obtain qs r where q: "pickup c ps = (qs, r)" by (cases "pickup c ps")
  show ?case
  proof (cases r)
    case None
    with Cons.prems a q have "stateOf (resolveCoins todo (ps, cs, pk)) = (ps', cs', pk')" by simp
    then show ?thesis by (rule Cons.IH)
  next
    case (Some who)
    obtain pid nm where who: "who = (pid, nm)" by (cases who)
    show ?thesis
    proof (cases "canToString nm")
      case False
      with Cons.prems a q Some who have "ps' = qs" by (simp add: stateOf_simps DEBUG_def)
      with pickup_sameButScore [OF q] show ?thesis by simp
    next
      case True
      with Cons.prems a q Some who
      have "stateOf (resolveCoins todo (qs, AList.delete coinId cs, pk @ [(coinId, pid)]))
              = (ps', cs', pk')"
        by simp
      then have "sameButScore qs ps'" by (rule Cons.IH)
      with pickup_sameButScore [OF q] show ?thesis by (rule sameButScore_trans)
    qed
  qed
qed

lemma coinResolution_sameButScore: "sameButScore ps (fst (stateOf (coinResolution ps cs)))"
proof -
  obtain ps' cs' pk' where r: "stateOf (resolveCoins cs (ps, cs, [])) = (ps', cs', pk')"
    by (cases "stateOf (resolveCoins cs (ps, cs, []))")
  from resolveCoins_sameButScore [OF r] r show ?thesis by (simp add: coinResolution_def)
qed

lemma fold_send_frame:
  "players (fold (\<lambda>(w, isOpen, rnd) s'. if isOpen then sendWithLatency rnd now w pkt s' else s') cl s)
     = players s
   \<and> coins (fold (\<lambda>(w, isOpen, rnd) s'. if isOpen then sendWithLatency rnd now w pkt s' else s') cl s)
     = coins s
   \<and> sockets (fold (\<lambda>(w, isOpen, rnd) s'. if isOpen then sendWithLatency rnd now w pkt s' else s') cl s)
     = sockets s
   \<and> incomingQueue (fold (\<lambda>(w, isOpen, rnd) s'. if isOpen then sendWithLatency rnd now w pkt s' else s') cl s)
     = incomingQueue s"
  by (induction cl arbitrary: s) (auto simp add: sendWithLatency_def)

lemma broadcastSnapshot_frame:
  "players (stateOf (broadcastSnapshot now cl s)) = players s
   \<and> coins (stateOf (broadcastSnapshot now cl s)) = coins s
   \<and> sockets (stateOf (broadcastSnapshot now cl s)) = sockets s
   \<and> incomingQueue (stateOf (broadcastSnapshot now cl s)) = incomingQueue s"
  by (simp add: broadcastSnapshot_def Let_def fold_send_frame stateOf_simps split: sum.splits)

lemma maybeSpawnCoin_frame:
  "players (maybeSpawnCoin u rx ry s) = players s \<and> sockets (maybeSpawnCoin u rx ry s) = sockets s
   \<and> incomingQueue (maybeSpawnCoin u rx ry s) = incomingQueue s"
  by (simp add: maybeSpawnCoin_def)

lemma spawnAndBroadcast_frame:
  "players (stateOf (spawnAndBroadcast te s)) = players s
   \<and> sockets (stateOf (spawnAndBroadcast te s)) = sockets s
   \<and> incomingQueue (stateOf (spawnAndBroadcast te s)) = incomingQueue s"
  by (simp add: spawnAndBroadcast_def Let_def broadcastSnapshot_frame maybeSpawnCoin_frame
      stateOf_simps)

lemma gameTick_players:
  "players (stateOf (gameTick te s))
     = fst (stateOf (coinResolution (applyMovement (players s)) (coins s)))
   \<and> sockets (stateOf (gameTick te s)) = sockets s
   \<and> incomingQueue (stateOf (gameTick te s)) = incomingQueue s"
proof (cases "coinResolution (applyMovement (players s)) (coins s)")
  case (Inl thrown)
  obtain err ps cs pk where "thrown = (err, ps, cs, pk)" by (cases thrown)
  with Inl show ?thesis by (simp add: gameTick_def Let_def stateOf_simps)
next
  case (Inr st)
  obtain ps cs pk where "st = (ps, cs, pk)" by (cases st)
  with Inr show ?thesis by (simp add: gameTick_def Let_def stateOf_simps spawnAndBroadcast_frame)
qed

lemma snapshotPlayers_total:
  "(\<forall>kp \<in> set ps. p_lastInput (snd kp) \<noteq> None) \<Longrightarrow> \<exists>es. snapshotPlayers ps = Inr es"
  by (induction ps) (auto split: option.splits sum.splits)

lemma movePlayer_lastInput: "p_lastInput (movePlayer p) = p_lastInput p"
  by (simp add: movePlayer_def Let_def)

lemma movePlayer_score: "p_score (movePlayer p) = p_score p"
  by (simp add: movePlayer_def Let_def)

lemma movePlayer_name: "p_name (movePlayer p) = p_name p"
  by (simp add: movePlayer_def Let_def)

lemma movePlayer_bounds:
  "8 \<le> p_x (movePlayer p) \<and> p_x (movePlayer p) \<le> MAP_W - 8
   \<and> 8 \<le> p_y (movePlayer p) \<and> p_y (movePlayer p) \<le> MAP_H - 8"
  by (simp add: movePlayer_def Let_def MAP_W_def MAP_H_def)

lemma unscored_fields:
  "p\<lparr>p_score := 0\<rparr> = p'\<lparr>p_score := 0\<rparr> \<Longrightarrow>
   p_x p' = p_x p \<and> p_y p' = p_y p \<and> p_lastInput p' = p_lastInput p \<and> p_id p' = p_id p
   \<and> p_name p' = p_name p \<and> p_lastSeen p' = p_lastSeen p"
proof -
  assume h: "p\<lparr>p_score := 0\<rparr> = p'\<lparr>p_score := 0\<rparr>"
  have "p_x (p\<lparr>p_score := 0\<rparr>) = p_x (p'\<lparr>p_score := 0\<rparr>)" 
       "p_y (p\<lparr>p_score := 0\<rparr>) = p_y (p'\<lparr>p_score := 0\<rparr>)"
       "p_lastInput (p\<lparr>p_score := 0\<rparr>) = p_lastInput (p'\<lparr>p_score := 0\<rparr>)"
       "p_id (p\<lparr>p_score := 0\<rparr>) = p_id (p'\<lparr>p_score := 0\<rparr>)"
       "p_name (p\<lparr>p_score := 0\<rparr>) = p_name (p'\<lparr>p_score := 0\<rparr>)"
       "p_lastSeen (p\<lparr>p_score := 0\<rparr>) = p_lastSeen (p'\<lparr>p_score := 0\<rparr>)"
    by (simp_all only: h)
  then show ?thesis by simp
qed

lemma sameButScore_printable:
  assumes "sameButScore ps ps'" and "\<forall>kp \<in> set ps. canToString (p_name (snd kp))"
  shows "\<forall>kp \<in> set ps'. canToString (p_name (snd kp))"
proof
  fix kp assume m: "kp \<in> set ps'"
  obtain k p' where kp: "kp = (k, p')" by (cases kp)
  from sameButScore_member [OF assms(1)] m kp
  obtain p where p: "(k, p) \<in> set ps" "p\<lparr>p_score := 0\<rparr> = p'\<lparr>p_score := 0\<rparr>" by blast
  from p(1) assms(2) have "canToString (p_name p)" by force
  with unscored_fields [OF p(2)] show "canToString (p_name (snd kp))" by (simp add: kp)
qed

lemma sameButScore_intents:
  assumes "sameButScore ps ps'" and "\<forall>kp \<in> set ps. p_lastInput (snd kp) \<noteq> None"
  shows "\<forall>kp \<in> set ps'. p_lastInput (snd kp) \<noteq> None"
proof
  fix kp assume m: "kp \<in> set ps'"
  obtain k p' where kp: "kp = (k, p')" by (cases kp)
  from sameButScore_member [OF assms(1)] m kp
  obtain p where p: "(k, p) \<in> set ps" "p\<lparr>p_score := 0\<rparr> = p'\<lparr>p_score := 0\<rparr>" by blast
  from p(1) assms(2) have "p_lastInput p \<noteq> None" by force
  with unscored_fields [OF p(2)] show "p_lastInput (snd kp) \<noteq> None" by (simp add: kp)
qed

text \<open>The coin phase returns when every name of the registry can be printed.\<close>

lemma resolveCoins_returns:
  "\<forall>kp \<in> set ps. canToString (p_name (snd kp)) \<Longrightarrow> \<exists>st. resolveCoins todo (ps, cs, pk) = Inr st"
proof (induction todo arbitrary: ps cs pk)
  case Nil
  show ?case by simp
next
  case (Cons a todo)
  obtain coinId c where a: "a = (coinId, c)" by (cases a)
  obtain qs r where q: "pickup c ps = (qs, r)" by (cases "pickup c ps")
  show ?case
  proof (cases r)
    case None
    with Cons.IH [OF Cons.prems, of cs pk] a q show ?thesis by simp
  next
    case (Some who)
    obtain pid nm where who: "who = (pid, nm)" by (cases who)
    from pickup_name [of c ps qs pid nm] q Some who
    obtain p where "(pid, p) \<in> set ps" "nm = p_name p" by auto
    with Cons.prems have nm: "canToString nm" by force
    from sameButScore_printable [OF pickup_sameButScore [OF q] Cons.prems]
    have "\<forall>kp \<in> set qs. canToString (p_name (snd kp))" .
    from Cons.IH [OF this, of "AList.delete coinId cs" "pk @ [(coinId, pid)]"] a q Some who nm
    show ?thesis by simp
  qed
qed

lemma applyMovement_printable:
  "\<forall>kp \<in> set ps. canToString (p_name (snd kp)) \<Longrightarrow>
   \<forall>kp \<in> set (applyMovement ps). canToString (p_name (snd kp))"
  by (auto simp add: applyMovement_def movePlayer_name)

lemma applyMovement_intents:
  "\<forall>kp \<in> set ps. p_lastInput (snd kp) \<noteq> None \<Longrightarrow>
   \<forall>kp \<in> set (applyMovement ps). p_lastInput (snd kp) \<noteq> None"
  by (auto simp add: applyMovement_def movePlayer_lastInput)

lemma spawnAndBroadcast_total:
  assumes "\<forall>kp \<in> set (players s). p_lastInput (snd kp) \<noteq> None"
  shows "\<exists>s'. spawnAndBroadcast te s = Inr s'"
proof -
  define s4 where "s4 =
    (if t_now te - lastCoinSpawn s \<ge> COIN_SPAWN_INTERVAL_MS
     then maybeSpawnCoin (t_uuid te) (t_x te) (t_y te) (s\<lparr>lastCoinSpawn := t_now te\<rparr>)
     else s)"
  have g: "spawnAndBroadcast te s =
             (if serverTick s4 mod SNAPSHOT_BROADCAST_RATE = 0
              then broadcastSnapshot (t_now te) (t_clients te) s4 else Inr s4)"
    by (simp add: spawnAndBroadcast_def s4_def Let_def)
  have "players s4 = players s" by (simp add: s4_def maybeSpawnCoin_frame)
  with assms have "\<forall>kp \<in> set (players s4). p_lastInput (snd kp) \<noteq> None" by simp
  from snapshotPlayers_total [OF this] obtain es where "snapshotPlayers (players s4) = Inr es" ..
  then have "\<exists>s'. broadcastSnapshot (t_now te) (t_clients te) s4 = Inr s'"
    by (simp add: broadcastSnapshot_def Let_def)
  with g show ?thesis by auto
qed

lemma tick_player_origin:
  assumes "(k, p') \<in> set (players (stateOf (gameTick te s)))"
  shows "\<exists>p. (k, p) \<in> set (players s) \<and> (movePlayer p)\<lparr>p_score := 0\<rparr> = p'\<lparr>p_score := 0\<rparr>"
proof -
  from gameTick_players [of te s]
  have "players (stateOf (gameTick te s))
          = fst (stateOf (coinResolution (applyMovement (players s)) (coins s)))" by simp
  with coinResolution_sameButScore [of "applyMovement (players s)" "coins s"]
  have "sameButScore (applyMovement (players s)) (players (stateOf (gameTick te s)))" by simp
  from sameButScore_member [OF this assms]
  obtain q where q: "(k, q) \<in> set (applyMovement (players s))"
    "q\<lparr>p_score := 0\<rparr> = p'\<lparr>p_score := 0\<rparr>" by blast
  from q(1) obtain p where "(k, p) \<in> set (players s)" "q = movePlayer p"
    by (auto simp add: applyMovement_def)
  with q(2) show ?thesis by blast
qed

text \<open>
  The tick returns when every player has a stored intent and a name that can be printed.
\<close>

lemma gameTick_total:
  assumes "\<forall>kp \<in> set (players s). p_lastInput (snd kp) \<noteq> None"
    and "\<forall>kp \<in> set (players s). canToString (p_name (snd kp))"
  shows "\<exists>s'. gameTick te s = Inr s'"
proof -
  let ?ps = "applyMovement (players s)"
  from resolveCoins_returns [OF applyMovement_printable [OF assms(2)], of "coins s" "coins s" "[]"]
  obtain st where st: "coinResolution ?ps (coins s) = Inr st" by (auto simp add: coinResolution_def)
  obtain ps cs pk where s3: "st = (ps, cs, pk)" by (cases st)
  let ?s3 = "s\<lparr>serverTick := serverTick s + 1, players := ps, coins := cs\<rparr>"
  have g: "gameTick te s = spawnAndBroadcast te ?s3"
    by (simp add: gameTick_def Let_def st s3)
  from coinResolution_sameButScore [of ?ps "coins s"] st s3
  have "sameButScore ?ps ps" by (simp add: stateOf_simps)
  from sameButScore_intents [OF this applyMovement_intents [OF assms(1)]]
  have "\<forall>kp \<in> set (players ?s3). p_lastInput (snd kp) \<noteq> None" by simp
  from spawnAndBroadcast_total [OF this, of te] g show ?thesis by simp
qed

subsection \<open>Bounds\<close>

text \<open>
  C3. After a tick, every player of the registry stands in the map inset by the radius 8
  that \<open>gameTick\<close> clamps to: \<open>8 \<le> x \<le> MAP_W - 8\<close> and \<open>8 \<le> y \<le> MAP_H - 8\<close>, whatever the
  state before, and also in the state a tick leaves that throws. The tick returns
  whenever every player has a stored intent and a name that can be converted to a string.
\<close>

theorem positions_in_bounds_after_tick:
  "(gameTick te s = Inr s' \<longrightarrow>
      (\<forall>kp \<in> set (players s').
         8 \<le> p_x (snd kp) \<and> p_x (snd kp) \<le> MAP_W - 8
         \<and> 8 \<le> p_y (snd kp) \<and> p_y (snd kp) \<le> MAP_H - 8))
   \<and> (\<forall>kp \<in> set (players (stateOf (gameTick te s))).
         8 \<le> p_x (snd kp) \<and> p_x (snd kp) \<le> MAP_W - 8
         \<and> 8 \<le> p_y (snd kp) \<and> p_y (snd kp) \<le> MAP_H - 8)
   \<and> ((\<forall>kp \<in> set (players s).
          p_lastInput (snd kp) \<noteq> None \<and> canToString (p_name (snd kp))) \<longrightarrow>
        (\<exists>s''. gameTick te s = Inr s''))"
proof -
  have b: "\<forall>kp \<in> set (players (stateOf (gameTick te s))).
         8 \<le> p_x (snd kp) \<and> p_x (snd kp) \<le> MAP_W - 8
         \<and> 8 \<le> p_y (snd kp) \<and> p_y (snd kp) \<le> MAP_H - 8"
  proof (rule ballI)
    fix kp
    assume m: "kp \<in> set (players (stateOf (gameTick te s)))"
    obtain k p' where kp: "kp = (k, p')" by (cases kp)
    from tick_player_origin [of k p' te s] m kp obtain p where
      p: "(movePlayer p)\<lparr>p_score := 0\<rparr> = p'\<lparr>p_score := 0\<rparr>" by blast
    from unscored_fields [OF p] movePlayer_bounds [of p]
    show "8 \<le> p_x (snd kp) \<and> p_x (snd kp) \<le> MAP_W - 8
           \<and> 8 \<le> p_y (snd kp) \<and> p_y (snd kp) \<le> MAP_H - 8"
      by (simp add: kp)
  qed
  have a: "gameTick te s = Inr s' \<longrightarrow>
      (\<forall>kp \<in> set (players s').
         8 \<le> p_x (snd kp) \<and> p_x (snd kp) \<le> MAP_W - 8
         \<and> 8 \<le> p_y (snd kp) \<and> p_y (snd kp) \<le> MAP_H - 8)"
  proof
    assume "gameTick te s = Inr s'"
    then have "stateOf (gameTick te s) = s'" by (simp add: stateOf_simps)
    with b show "\<forall>kp \<in> set (players s').
         8 \<le> p_x (snd kp) \<and> p_x (snd kp) \<le> MAP_W - 8
         \<and> 8 \<le> p_y (snd kp) \<and> p_y (snd kp) \<le> MAP_H - 8" by simp
  qed
  have c: "(\<forall>kp \<in> set (players s).
          p_lastInput (snd kp) \<noteq> None \<and> canToString (p_name (snd kp))) \<longrightarrow>
        (\<exists>s''. gameTick te s = Inr s'')"
    using gameTick_total [of s te] by blast
  from a b c show ?thesis by (intro conjI)
qed

lemma hypot_axis: "hypot 1 0 = 1" "hypot 0 0 = 0"
  by (simp_all add: hypot_def)

lemma tickDisplacement_right:
  "tickDisplacement (Some \<lparr>i_seq = q, i_dx = Some 1, i_dy = Some 0, i_ts = t\<rparr>) = (6, 0)"
  by (simp add: tickDisplacement_def normalizeIntent_def hypot_axis orZero_simps Let_def
      PLAYER_SPEED_def MS_PER_TICK_def TICK_RATE_def)

theorem positions_in_bounds_after_tick_witness:
  "list_all (\<lambda>kp. p_lastInput (snd kp) \<noteq> None \<and> canToString (p_name (snd kp)))
     (players borderServer)
   \<and> map (\<lambda>kp. (p_x (snd kp), p_y (snd kp))) (players borderServer) = [(790, 300)]
   \<and> (\<exists>s'. gameTick tickEnv0 borderServer = Inr s'
         \<and> map (\<lambda>kp. (p_x (snd kp), p_y (snd kp))) (players s') = [(792, 300)]
         \<and> list_all (\<lambda>kp. 8 \<le> p_x (snd kp) \<and> p_x (snd kp) \<le> MAP_W - 8
                          \<and> 8 \<le> p_y (snd kp) \<and> p_y (snd kp) \<le> MAP_H - 8) (players s'))"
proof -
  have ps: "players borderServer =
      [(''a1b2c3'', (newPlayer env0 (Some (JStr ''Ann'')))
          \<lparr>p_x := 790,
           p_lastInput := Some \<lparr>i_seq = 7, i_dx = Some 1, i_dy = Some 0, i_ts = Some 1900\<rparr>\<rparr>)]"
    by (simp add: borderServer_def)
  have cs: "coins borderServer = []"
    by (simp add: borderServer_def joinedServer_eq)
  have h: "\<forall>kp \<in> set (players borderServer).
             p_lastInput (snd kp) \<noteq> None \<and> canToString (p_name (snd kp))"
    by (simp add: ps newPlayer_def)
  have before: "map (\<lambda>kp. (p_x (snd kp), p_y (snd kp))) (players borderServer) = [(790, 300)]"
    by (simp add: ps newPlayer_def env0_def MAP_H_def)
  note t = positions_in_bounds_after_tick [where te = tickEnv0 and s = borderServer]
  from t [THEN conjunct2, THEN conjunct2] h
  obtain s' where g: "gameTick tickEnv0 borderServer = Inr s'" by blast
  from t [where s' = s', THEN conjunct1] g
  have b: "\<forall>kp \<in> set (players s').
         8 \<le> p_x (snd kp) \<and> p_x (snd kp) \<le> MAP_W - 8
         \<and> 8 \<le> p_y (snd kp) \<and> p_y (snd kp) \<le> MAP_H - 8" by blast
  from gameTick_players [of tickEnv0 borderServer] g
  have "players s' = fst (stateOf (coinResolution (applyMovement (players borderServer))
                                     (coins borderServer)))"
    by (simp add: stateOf_simps)
  then have after: "map (\<lambda>kp. (p_x (snd kp), p_y (snd kp))) (players s') = [(792, 300)]"
    by (simp add: ps cs coinResolution_def applyMovement_def movePlayer_def stateOf_simps
        tickDisplacement_right newPlayer_def env0_def MAP_W_def MAP_H_def)
  from h before g b after show ?thesis by (simp add: list_all_iff)
qed

subsection \<open>Coin resolution\<close>

lemma collectedBy_simps:
  "collectedBy q [] = 0"
  "collectedBy q ((cid, pid) # pk) = (if pid = q then 1 else 0) + collectedBy q pk"
  "collectedBy q (pk @ pk') = collectedBy q pk + collectedBy q pk'"
  by (simp_all add: collectedBy_def)

lemma firstInRange_simps:
  "firstInRange c [] = None"
  "firstInRange c ((k, p) # ps) = (if inRange c p then Some k else firstInRange c ps)"
  by (simp_all add: firstInRange_def)

lemma firstInRange_key: "firstInRange c ps = Some pid \<Longrightarrow> pid \<in> fst ` set ps"
  by (induction ps) (auto simp add: firstInRange_simps split: if_splits)

lemma inRange_unscored: "p\<lparr>p_score := 0\<rparr> = p'\<lparr>p_score := 0\<rparr> \<Longrightarrow> inRange c p' = inRange c p"
  using unscored_fields [of p p'] by (simp add: inRange_def)

lemma firstInRange_sameButScore:
  "sameButScore ps ps' \<Longrightarrow> firstInRange c ps' = firstInRange c ps"
proof (induction ps arbitrary: ps')
  case Nil
  then show ?case by (simp add: sameButScore_def)
next
  case (Cons a ps)
  obtain k p where a: "a = (k, p)" by (cases a)
  from Cons.prems obtain b qs where ps': "ps' = b # qs"
    by (cases ps') (auto simp add: sameButScore_def)
  obtain k' p' where b: "b = (k', p')" by (cases b)
  from Cons.prems have h: "k = k'" "p\<lparr>p_score := 0\<rparr> = p'\<lparr>p_score := 0\<rparr>" "sameButScore ps qs"
    by (simp_all add: a b ps' sameButScore_Cons)
  from Cons.IH [OF h(3)] inRange_unscored [OF h(2), of c] h(1)
  show ?case by (simp add: a b ps' firstInRange_simps)
qed

lemma awards_sameButScore: "sameButScore ps ps' \<Longrightarrow> awards todo ps' = awards todo ps"
  by (induction todo) (auto simp add: firstInRange_sameButScore split: option.splits)

lemma awards_key: "(cid, pid) \<in> set (awards todo ps) \<Longrightarrow> cid \<in> fst ` set todo"
  by (induction todo) (force split: option.splits)+

lemma awards_keys: "fst ` set (awards todo ps) \<subseteq> fst ` set todo"
  using awards_key by fastforce

lemma awards_distinct: "distinct (map fst todo) \<Longrightarrow> distinct (map fst (awards todo ps))"
proof (induction todo)
  case Nil
  show ?case by simp
next
  case (Cons a todo)
  obtain coinId c where a: "a = (coinId, c)" by (cases a)
  from awards_keys [of todo ps] Cons.prems a have "coinId \<notin> fst ` set (awards todo ps)" by auto
  with Cons a show ?case by (auto split: option.splits)
qed

lemma awards_first:
  "distinct (map fst todo) \<Longrightarrow> (cid, pid) \<in> set (awards todo ps) \<Longrightarrow>
   \<exists>c. map_of todo cid = Some c \<and> firstInRange c ps = Some pid"
proof (induction todo)
  case Nil
  then show ?case by simp
next
  case (Cons a todo)
  obtain coinId c where a: "a = (coinId, c)" by (cases a)
  from Cons.prems(1) a have d: "distinct (map fst todo)" by simp
  show ?case
  proof (cases "cid = coinId")
    case True
    from awards_keys [of todo ps] Cons.prems(1) a have "coinId \<notin> fst ` set (awards todo ps)" by auto
    then have "(coinId, pid) \<notin> set (awards todo ps)" by force
    with Cons.prems(2) True a show ?thesis by (auto split: option.splits)
  next
    case False
    with Cons.prems(2) a have "(cid, pid) \<in> set (awards todo ps)" by (auto split: option.splits)
    from Cons.IH [OF d this] False a show ?thesis by simp
  qed
qed

lemma awards_complete:
  "(cid, c) \<in> set todo \<Longrightarrow> firstInRange c ps = Some pid \<Longrightarrow> (cid, pid) \<in> set (awards todo ps)"
  by (induction todo) (auto split: option.splits)

lemma awards_entry: "entry \<in> set (awards todo ps) \<Longrightarrow> fst entry \<in> fst ` set todo"
  using awards_key [of "fst entry" "snd entry" todo ps] by simp

lemma removed_count:
  assumes "distinct (map fst cs)" and "distinct (map fst got)"
    and "fst ` set got \<subseteq> fst ` set cs"
  shows "length (filter (\<lambda>kc. fst kc \<notin> fst ` set got) cs) + length got = length cs"
proof -
  let ?A = "fst ` set got"
  have "map fst (filter (\<lambda>kc. fst kc \<in> ?A) cs) = filter (\<lambda>k. k \<in> ?A) (map fst cs)"
    by (simp add: filter_map comp_def)
  then have "length (filter (\<lambda>kc. fst kc \<in> ?A) cs) = length (filter (\<lambda>k. k \<in> ?A) (map fst cs))"
    by (metis length_map)
  also have "\<dots> = card (set (filter (\<lambda>k. k \<in> ?A) (map fst cs)))"
  proof -
    have "distinct (filter (\<lambda>k. k \<in> ?A) (map fst cs))" using assms(1) by (rule distinct_filter)
    from distinct_card [OF this] show ?thesis by (simp only:)
  qed
  also have "set (filter (\<lambda>k. k \<in> ?A) (map fst cs)) = ?A" using assms(3) by auto
  also have "card ?A = length got"
    using assms(2) distinct_card [of "map fst got"] by simp
  finally have "length (filter (\<lambda>kc. fst kc \<in> ?A) cs) = length got" .
  moreover have "length (filter (\<lambda>kc. fst kc \<in> ?A) cs)
      + length (filter (\<lambda>kc. \<not> fst kc \<in> ?A) cs) = length cs"
    by (rule sum_length_filter_compl)
  ultimately show ?thesis by simp
qed

lemma pickup_result: "pickup c ps = (ps', r) \<Longrightarrow> map_option fst r = firstInRange c ps"
  by (induction ps arbitrary: ps' r)
    (auto simp add: firstInRange_simps split: if_splits prod.splits)

lemma pickup_score:
  "distinct (map fst ps) \<Longrightarrow> pickup c ps = (ps', Some (pid, nm)) \<Longrightarrow> map_of ps q = Some p \<Longrightarrow>
   map_of ps' q = Some (p\<lparr>p_score := p_score p + (if q = pid then 1 else 0)\<rparr>)"
proof (induction ps arbitrary: ps')
  case Nil
  then show ?case by simp
next
  case (Cons a ps)
  obtain k p0 where a: "a = (k, p0)" by (cases a)
  show ?case
  proof (cases "inRange c p0")
    case True
    with Cons.prems(2) a have e: "ps' = (k, p0\<lparr>p_score := p_score p0 + 1\<rparr>) # ps" "pid = k" by auto
    from Cons.prems(1) a have "k \<notin> fst ` set ps" by auto
    then have "map_of ps k = None" by (simp add: map_of_eq_None_iff)
    with Cons.prems(3) a e show ?thesis by (auto split: if_splits)
  next
    case False
    obtain qs r0 where q: "pickup c ps = (qs, r0)" by (cases "pickup c ps")
    with False Cons.prems(2) a have e: "ps' = (k, p0) # qs" "r0 = Some (pid, nm)" by auto
    from pickup_result [OF q] e(2) have "firstInRange c ps = Some pid" by simp
    from firstInRange_key [OF this] Cons.prems(1) a have ne: "k \<noteq> pid" by auto
    from Cons.prems(1) have d: "distinct (map fst ps)" by simp
    show ?thesis
    proof (cases "q = k")
      case True
      with Cons.prems(3) a e ne show ?thesis by simp
    next
      case False
      with Cons.prems(3) a have "map_of ps q = Some p" by simp
      from Cons.IH [OF d _ this, of qs] q e False show ?thesis by simp
    qed
  qed
qed

lemma delete_as_filter: "AList.delete k cs = filter (\<lambda>kc. fst kc \<noteq> k) cs"
  by (induction cs) auto

text \<open>
  What the coin loop has done when it stops, by returning or by throwing: \<open>got\<close> are the
  entries it has pushed, the first of the coins that have a player in range; all of them
  when it returns.
\<close>

lemma resolveCoins_char:
  "distinct (map fst ps) \<Longrightarrow> stateOf (resolveCoins todo (ps, cs, pk)) = (ps', cs', pk') \<Longrightarrow>
   \<exists>got rest. awards todo ps = got @ rest
     \<and> ((\<exists>st. resolveCoins todo (ps, cs, pk) = Inr st) \<longrightarrow> rest = [])
     \<and> pk' = pk @ got
     \<and> cs' = filter (\<lambda>kc. fst kc \<notin> fst ` set got) cs
     \<and> (\<forall>q p. map_of ps q = Some p \<longrightarrow>
           map_of ps' q = Some (p\<lparr>p_score := p_score p + int (collectedBy q got)\<rparr>))"
proof (induction todo arbitrary: ps cs pk)
  case Nil
  then have "awards [] ps = [] @ []" "pk' = pk @ []" "cs' = filter (\<lambda>kc. fst kc \<notin> fst ` set []) cs"
    "\<forall>q p. map_of ps q = Some p \<longrightarrow>
       map_of ps' q = Some (p\<lparr>p_score := p_score p + int (collectedBy q [])\<rparr>)"
    by (simp_all add: collectedBy_simps stateOf_simps)
  then show ?case by blast
next
  case (Cons a todo)
  obtain coinId c where a: "a = (coinId, c)" by (cases a)
  obtain qs r where q: "pickup c ps = (qs, r)" by (cases "pickup c ps")
  from pickup_result [OF q] have r: "map_option fst r = firstInRange c ps" .
  show ?case
  proof (cases r)
    case None
    with a q have same: "resolveCoins (a # todo) (ps, cs, pk) = resolveCoins todo (ps, cs, pk)"
      by simp
    from None r have aw: "awards (a # todo) ps = awards todo ps" by (simp add: a)
    from Cons.prems(2) same have "stateOf (resolveCoins todo (ps, cs, pk)) = (ps', cs', pk')"
      by simp
    from Cons.IH [OF Cons.prems(1) this] show ?thesis unfolding same aw .
  next
    case (Some who)
    obtain pid nm where who: "who = (pid, nm)" by (cases who)
    from Some who q have q': "pickup c ps = (qs, Some (pid, nm))" by simp
    from Some who r have "firstInRange c ps = Some pid" by simp
    then have aw2: "awards (a # todo) ps = (coinId, pid) # awards todo ps"
      by (simp add: a)
    from pickup_sameButScore [OF q] have sameps: "sameButScore ps qs" .
    show ?thesis
    proof (cases "canToString nm")
      case False
      with a q' have thrown: "resolveCoins (a # todo) (ps, cs, pk) =
          Inl (TypeError, (qs, AList.delete coinId cs, pk @ [(coinId, pid)]))"
        by (simp add: DEBUG_def)
      with Cons.prems(2) have e: "ps' = qs" "cs' = AList.delete coinId cs"
        "pk' = pk @ [(coinId, pid)]"
        by (simp_all add: stateOf_simps)
      have c1: "awards (a # todo) ps = [(coinId, pid)] @ awards todo ps" using aw2 by simp
      have c2: "(\<exists>st. resolveCoins (a # todo) (ps, cs, pk) = Inr st) \<longrightarrow> awards todo ps = []"
        using thrown by simp
      have c4: "cs' = filter (\<lambda>kc. fst kc \<notin> fst ` set [(coinId, pid)]) cs"
        using e(2) by (simp add: delete_as_filter)
      have c5: "\<forall>q p. map_of ps q = Some p \<longrightarrow>
          map_of ps' q = Some (p\<lparr>p_score := p_score p + int (collectedBy q [(coinId, pid)])\<rparr>)"
      proof (intro allI impI)
        fix q0 p
        assume m: "map_of ps q0 = Some p"
        from pickup_score [OF Cons.prems(1) q' m] e(1)
        show "map_of ps' q0 =
            Some (p\<lparr>p_score := p_score p + int (collectedBy q0 [(coinId, pid)])\<rparr>)"
          by (simp add: collectedBy_simps)
      qed
      from c1 c2 e(3) c4 c5 show ?thesis by blast
    next
      case True
      with a q' have same: "resolveCoins (a # todo) (ps, cs, pk) =
          resolveCoins todo (qs, AList.delete coinId cs, pk @ [(coinId, pid)])"
        by simp
      with Cons.prems(2)
      have run: "stateOf (resolveCoins todo (qs, AList.delete coinId cs, pk @ [(coinId, pid)]))
                   = (ps', cs', pk')"
        by simp
      from sameButScore_keys [OF sameps] Cons.prems(1) have dq: "distinct (map fst qs)" by simp
      have aw: "awards todo qs = awards todo ps" by (rule awards_sameButScore [OF sameps])
      from Cons.IH [OF dq run] obtain got rest where ih:
        "awards todo qs = got @ rest"
        "(\<exists>st. resolveCoins todo (qs, AList.delete coinId cs, pk @ [(coinId, pid)]) = Inr st)
           \<longrightarrow> rest = []"
        "pk' = (pk @ [(coinId, pid)]) @ got"
        "cs' = filter (\<lambda>kc. fst kc \<notin> fst ` set got) (AList.delete coinId cs)"
        "\<forall>q p. map_of qs q = Some p \<longrightarrow>
           map_of ps' q = Some (p\<lparr>p_score := p_score p + int (collectedBy q got)\<rparr>)"
        by blast
      have c1: "awards (a # todo) ps = ((coinId, pid) # got) @ rest"
        using aw2 aw ih(1) by simp
      have c2: "(\<exists>st. resolveCoins (a # todo) (ps, cs, pk) = Inr st) \<longrightarrow> rest = []"
        using ih(2) unfolding same .
      have c3: "pk' = pk @ ((coinId, pid) # got)" using ih(3) by simp
      have c4: "cs' = filter (\<lambda>kc. fst kc \<notin> fst ` set ((coinId, pid) # got)) cs"
        using ih(4) by (simp add: delete_as_filter conj_commute)
      have c5: "\<forall>q p. map_of ps q = Some p \<longrightarrow>
          map_of ps' q = Some (p\<lparr>p_score := p_score p + int (collectedBy q ((coinId, pid) # got))\<rparr>)"
      proof (intro allI impI)
        fix q0 p
        assume m: "map_of ps q0 = Some p"
        from pickup_score [OF Cons.prems(1) q' m]
        have "map_of qs q0 = Some (p\<lparr>p_score := p_score p + (if q0 = pid then 1 else 0)\<rparr>)" .
        with ih(5) show "map_of ps' q0 =
            Some (p\<lparr>p_score := p_score p + int (collectedBy q0 ((coinId, pid) # got))\<rparr>)"
          by (simp add: collectedBy_simps)
      qed
      from c1 c2 c3 c4 c5 show ?thesis by blast
    qed
  qed
qed

text \<open>
  C4. The coin phase of a tick, on a registry of players and a dictionary of coins (their
  keys distinct, as an object's are), in the state it stops in, \<open>picked\<close> being
  \<open>pickedCoins\<close>. The phase returns when every name of the registry can be printed. When
  it returns, \<open>picked\<close> lists, in the order of the coins, each coin that has a player in
  range together with the first such player of the scan; when it throws, \<open>picked\<close> is the
  front of that list. No coin is listed twice, and each coin listed is with the first
  player of the scan in range of it. The coins left are the others. The players keep
  their keys, order and positions, and the score of each grows by the number of coins
  listed for that player. The coins removed are at most the coins present.
\<close>

theorem coin_awarded_once_to_first_in_range:
  assumes "distinct (map fst ps)" and "distinct (map fst cs)"
    and "stateOf (coinResolution ps cs) = (ps', cs', picked)"
  shows "((\<forall>kp \<in> set ps. canToString (p_name (snd kp))) \<longrightarrow>
            coinResolution ps cs = Inr (ps', cs', picked))
     \<and> ((\<exists>st. coinResolution ps cs = Inr st) \<longrightarrow> picked = awards cs ps)
     \<and> picked = take (length picked) (awards cs ps)
     \<and> distinct (map fst picked)
     \<and> (\<forall>entry \<in> set picked.
          \<exists>c. map_of cs (fst entry) = Some c \<and> firstInRange c ps = Some (snd entry))
     \<and> ((\<exists>st. coinResolution ps cs = Inr st) \<longrightarrow>
          (\<forall>kc \<in> set cs. firstInRange (snd kc) ps \<noteq> None \<longrightarrow> fst kc \<in> fst ` set picked))
     \<and> cs' = filter (\<lambda>kc. fst kc \<notin> fst ` set picked) cs
     \<and> sameButScore ps ps'
     \<and> (\<forall>q p. map_of ps q = Some p \<longrightarrow>
           map_of ps' q = Some (p\<lparr>p_score := p_score p + int (collectedBy q picked)\<rparr>))
     \<and> length picked \<le> length cs
     \<and> length cs' + length picked = length cs"
proof -
  from assms(3) have run: "stateOf (resolveCoins cs (ps, cs, [])) = (ps', cs', picked)"
    by (simp add: coinResolution_def)
  from resolveCoins_char [OF assms(1) run] obtain got rest where ch:
    "awards cs ps = got @ rest"
    "(\<exists>st. resolveCoins cs (ps, cs, []) = Inr st) \<longrightarrow> rest = []"
    "picked = [] @ got"
    "cs' = filter (\<lambda>kc. fst kc \<notin> fst ` set got) cs"
    "\<forall>q p. map_of ps q = Some p \<longrightarrow>
       map_of ps' q = Some (p\<lparr>p_score := p_score p + int (collectedBy q got)\<rparr>)"
    by blast
  from ch(3) have got: "got = picked" by simp
  note aw = ch(1) [unfolded got]
  have r: "(\<forall>kp \<in> set ps. canToString (p_name (snd kp))) \<longrightarrow>
            coinResolution ps cs = Inr (ps', cs', picked)"
  proof
    assume "\<forall>kp \<in> set ps. canToString (p_name (snd kp))"
    from resolveCoins_returns [OF this, of cs cs "[]"]
    obtain st where "coinResolution ps cs = Inr st" by (auto simp add: coinResolution_def)
    with assms(3) show "coinResolution ps cs = Inr (ps', cs', picked)"
      by (simp add: stateOf_simps)
  qed
  have a: "(\<exists>st. coinResolution ps cs = Inr st) \<longrightarrow> picked = awards cs ps"
    using ch(2) aw by (simp add: coinResolution_def)
  have a': "picked = take (length picked) (awards cs ps)" using aw by simp
  have sub: "set picked \<subseteq> set (awards cs ps)" using aw by auto
  have "distinct (map fst (picked @ rest))" using awards_distinct [OF assms(2), of ps] aw by simp
  then have d: "distinct (map fst picked)" by simp
  have e: "\<forall>entry \<in> set picked.
          \<exists>c. map_of cs (fst entry) = Some c \<and> firstInRange c ps = Some (snd entry)"
  proof
    fix entry assume "entry \<in> set picked"
    then have "(fst entry, snd entry) \<in> set (awards cs ps)" using sub by auto
    from awards_first [OF assms(2) this]
    show "\<exists>c. map_of cs (fst entry) = Some c \<and> firstInRange c ps = Some (snd entry)" .
  qed
  have f: "(\<exists>st. coinResolution ps cs = Inr st) \<longrightarrow>
          (\<forall>kc \<in> set cs. firstInRange (snd kc) ps \<noteq> None \<longrightarrow> fst kc \<in> fst ` set picked)"
  proof (intro impI ballI)
    fix kc
    assume "\<exists>st. coinResolution ps cs = Inr st"
      and m: "kc \<in> set cs" and n: "firstInRange (snd kc) ps \<noteq> None"
    with a have all: "picked = awards cs ps" by simp
    from n obtain pid where "firstInRange (snd kc) ps = Some pid" by auto
    from awards_complete [of "fst kc" "snd kc" cs ps pid] m this
    have "(fst kc, pid) \<in> set picked" using all by simp
    then show "fst kc \<in> fst ` set picked" by force
  qed
  have b: "cs' = filter (\<lambda>kc. fst kc \<notin> fst ` set picked) cs" using ch(4) got by simp
  have g: "sameButScore ps ps'" using resolveCoins_sameButScore [OF run] .
  have c: "\<forall>q p. map_of ps q = Some p \<longrightarrow>
           map_of ps' q = Some (p\<lparr>p_score := p_score p + int (collectedBy q picked)\<rparr>)"
    using ch(5) got by simp
  have "fst ` set picked \<subseteq> fst ` set cs"
  proof
    fix k assume "k \<in> fst ` set picked"
    then obtain entry where "entry \<in> set picked" "k = fst entry" by auto
    with sub awards_entry [of entry cs ps] show "k \<in> fst ` set cs" by auto
  qed
  from removed_count [OF assms(2) d this] b
  have h: "length cs' + length picked = length cs" by simp
  then have i: "length picked \<le> length cs" by simp
  show ?thesis by (intro conjI) (rule r a a' d e f b g c i h)+
qed

theorem coin_awarded_once_to_first_in_range_witness:
  "distinct (map fst twoPlayers) \<and> distinct (map fst threeCoins)
   \<and> list_all (\<lambda>kp. canToString (p_name (snd kp))) twoPlayers
   \<and> map (\<lambda>kc. firstInRange (snd kc) twoPlayers) threeCoins = [Some ''A'', Some ''B'', None]
   \<and> (\<exists>ps' cs'. coinResolution twoPlayers threeCoins = Inr (ps', cs', [(''c1'', ''A''), (''c2'', ''B'')])
         \<and> map fst cs' = [''c3'']
         \<and> map_option p_score (map_of twoPlayers ''A'') = Some 0
         \<and> map_option p_score (map_of ps' ''A'') = Some 1
         \<and> map_option p_score (map_of ps' ''B'') = Some 1
         \<and> length cs' + 2 = length threeCoins)"
proof -
  have inr: "inRange (snd (threeCoins ! 0)) (snd (twoPlayers ! 0))"
    "\<not> inRange (snd (threeCoins ! 1)) (snd (twoPlayers ! 0))"
    "inRange (snd (threeCoins ! 1)) (snd (twoPlayers ! 1))"
    "\<not> inRange (snd (threeCoins ! 2)) (snd (twoPlayers ! 0))"
    "\<not> inRange (snd (threeCoins ! 2)) (snd (twoPlayers ! 1))"
    by (simp_all add: inRange_def threeCoins_def twoPlayers_def PICKUP_RADIUS_def power2_eq_square)
  have d1: "distinct (map fst twoPlayers)" by (simp add: twoPlayers_def)
  have d2: "distinct (map fst threeCoins)" by (simp add: threeCoins_def)
  have nm: "\<forall>kp \<in> set twoPlayers. canToString (p_name (snd kp))"
    by (simp add: twoPlayers_def newPlayer_name)
  then have nm': "list_all (\<lambda>kp. canToString (p_name (snd kp))) twoPlayers"
    by (simp add: list_all_iff)
  have fr: "map (\<lambda>kc. firstInRange (snd kc) twoPlayers) threeCoins = [Some ''A'', Some ''B'', None]"
    using inr by (simp add: threeCoins_def twoPlayers_def firstInRange_simps)
  then have aw: "awards threeCoins twoPlayers = [(''c1'', ''A''), (''c2'', ''B'')]"
    by (simp add: threeCoins_def)
  obtain ps' cs' picked where
    r: "stateOf (coinResolution twoPlayers threeCoins) = (ps', cs', picked)"
    by (cases "stateOf (coinResolution twoPlayers threeCoins)")
  note t = coin_awarded_once_to_first_in_range [OF d1 d2 r]
  note t1 = t [THEN conjunct1]
  note t2 = t [THEN conjunct2, THEN conjunct1]
  note t7 = t [THEN conjunct2, THEN conjunct2, THEN conjunct2, THEN conjunct2, THEN conjunct2,
    THEN conjunct2, THEN conjunct1]
  note t9 = t [THEN conjunct2, THEN conjunct2, THEN conjunct2, THEN conjunct2, THEN conjunct2,
    THEN conjunct2, THEN conjunct2, THEN conjunct2, THEN conjunct1]
  note t11 = t [THEN conjunct2, THEN conjunct2, THEN conjunct2, THEN conjunct2, THEN conjunct2,
    THEN conjunct2, THEN conjunct2, THEN conjunct2, THEN conjunct2, THEN conjunct2]
  from t1 nm have ret: "coinResolution twoPlayers threeCoins = Inr (ps', cs', picked)" by blast
  with t2 aw have p: "picked = [(''c1'', ''A''), (''c2'', ''B'')]" by simp
  from t7 have c: "map fst cs' = [''c3'']" by (simp add: p threeCoins_def)
  have mA: "map_of twoPlayers ''A'' = Some (snd (twoPlayers ! 0))"
    and mB: "map_of twoPlayers ''B'' = Some (snd (twoPlayers ! 1))"
    by (simp_all add: twoPlayers_def)
  have s0: "map_option p_score (map_of twoPlayers ''A'') = Some 0"
    by (simp add: twoPlayers_def newPlayer_def)
  from t9 [rule_format, OF mA] have sA: "map_option p_score (map_of ps' ''A'') = Some 1"
    by (simp add: p collectedBy_simps twoPlayers_def newPlayer_def)
  from t9 [rule_format, OF mB] have sB: "map_option p_score (map_of ps' ''B'') = Some 1"
    by (simp add: p collectedBy_simps twoPlayers_def newPlayer_def)
  from t11 have l: "length cs' + 2 = length threeCoins" by (simp add: p)
  have r': "coinResolution twoPlayers threeCoins = Inr (ps', cs', [(''c1'', ''A''), (''c2'', ''B'')])"
    using ret p by simp
  show ?thesis
    by (intro conjI exI [of _ ps'] exI [of _ cs']) (rule d1 d2 nm' fr r' c s0 sA sB l)+
qed

subsection \<open>Movement\<close>

lemma hypot_nonneg: "0 \<le> hypot a b"
  by (simp add: hypot_def)

lemma hypot_square: "(hypot a b)\<^sup>2 = a\<^sup>2 + b\<^sup>2"
  by (simp add: hypot_def)

lemma hypot_scale: "0 \<le> k \<Longrightarrow> hypot (a * k) (b * k) = hypot a b * k"
proof -
  assume k: "0 \<le> k"
  have "(a * k)\<^sup>2 + (b * k)\<^sup>2 = (a\<^sup>2 + b\<^sup>2) * k\<^sup>2" by (simp add: power_mult_distrib algebra_simps)
  then have "hypot (a * k) (b * k) = sqrt ((a\<^sup>2 + b\<^sup>2) * k\<^sup>2)" by (simp add: hypot_def)
  also have "\<dots> = sqrt (a\<^sup>2 + b\<^sup>2) * sqrt (k\<^sup>2)" by (rule real_sqrt_mult)
  also have "\<dots> = hypot a b * k" using k by (simp add: hypot_def)
  finally show ?thesis .
qed

lemma hypot_zero: "hypot 0 0 = 0"
  by (simp add: hypot_def)

lemma normalizeIntent_unit:
  assumes "hypot dx dy > 1 / 10000"
  shows "hypot (fst (normalizeIntent dx dy)) (snd (normalizeIntent dx dy)) = 1"
proof -
  let ?len = "hypot dx dy"
  from assms have pos: "0 < ?len" by simp
  have "(dx / ?len)\<^sup>2 + (dy / ?len)\<^sup>2 = (dx\<^sup>2 + dy\<^sup>2) / ?len\<^sup>2"
    by (simp add: power_divide add_divide_distrib)
  also have "\<dots> = 1" using pos by (simp add: hypot_square [symmetric])
  finally have "sqrt ((dx / ?len)\<^sup>2 + (dy / ?len)\<^sup>2) = 1" by simp
  with assms show ?thesis by (simp add: normalizeIntent_def Let_def hypot_def)
qed

lemma normalizeIntent_small:
  "\<not> hypot dx dy > 1 / 10000 \<Longrightarrow> normalizeIntent dx dy = (0, 0)"
  by (simp add: normalizeIntent_def Let_def)

lemma hypot_component: "\<bar>a\<bar> \<le> hypot a b" "\<bar>b\<bar> \<le> hypot a b"
proof -
  have "a\<^sup>2 \<le> a\<^sup>2 + b\<^sup>2" "b\<^sup>2 \<le> a\<^sup>2 + b\<^sup>2" by simp_all
  then have "sqrt (a\<^sup>2) \<le> sqrt (a\<^sup>2 + b\<^sup>2)" "sqrt (b\<^sup>2) \<le> sqrt (a\<^sup>2 + b\<^sup>2)"
    by (simp_all only: real_sqrt_le_iff)
  then show "\<bar>a\<bar> \<le> hypot a b" "\<bar>b\<bar> \<le> hypot a b" by (simp_all add: hypot_def)
qed

lemma normalizeIntent_components:
  "\<bar>fst (normalizeIntent dx dy)\<bar> \<le> 1 \<and> \<bar>snd (normalizeIntent dx dy)\<bar> \<le> 1"
proof (cases "hypot dx dy > 1 / 10000")
  case True
  from hypot_component [where a = "fst (normalizeIntent dx dy)" and b = "snd (normalizeIntent dx dy)"]
    normalizeIntent_unit [OF True]
  show ?thesis by simp
next
  case False
  then show ?thesis by (simp add: normalizeIntent_small)
qed

lemma step_length: "PLAYER_SPEED * (MS_PER_TICK / 1000) = 6"
  by (simp add: PLAYER_SPEED_def MS_PER_TICK_def TICK_RATE_def)

lemma tickDisplacement_eq:
  "tickDisplacement li =
     (let dx = orZero (case li of None \<Rightarrow> Some 0 | Some i \<Rightarrow> i_dx i);
          dy = orZero (case li of None \<Rightarrow> Some 0 | Some i \<Rightarrow> i_dy i);
          n = normalizeIntent dx dy
      in (fst n * (PLAYER_SPEED * (MS_PER_TICK / 1000)), snd n * (PLAYER_SPEED * (MS_PER_TICK / 1000))))"
proof -
  define dx where "dx = orZero (case li of None \<Rightarrow> Some 0 | Some i \<Rightarrow> i_dx i)"
  define dy where "dy = orZero (case li of None \<Rightarrow> Some 0 | Some i \<Rightarrow> i_dy i)"
  define n where "n = normalizeIntent dx dy"
  from normalizeIntent_components [of dx dy]
  have b: "\<bar>fst n\<bar> \<le> 1" "\<bar>snd n\<bar> \<le> 1" by (simp_all add: n_def)
  then have c: "max (- (6 * (12 / 10))) (min (6 * (12 / 10)) (fst n * 6)) = fst n * 6"
               "max (- (6 * (12 / 10))) (min (6 * (12 / 10)) (snd n * 6)) = snd n * 6"
    by (simp_all add: max_def min_def abs_le_iff)
  have "tickDisplacement li =
          (max (- (6 * (12 / 10))) (min (6 * (12 / 10)) (fst n * 6)),
           max (- (6 * (12 / 10))) (min (6 * (12 / 10)) (snd n * 6)))"
    unfolding tickDisplacement_def Let_def step_length n_def dx_def dy_def
    by (cases li) simp_all
  with c show ?thesis
    unfolding Let_def step_length by (simp add: n_def dx_def dy_def)
qed

text \<open>
  C5 as stated fails on a short intent. The intent \<open>(0.00005, 0)\<close> is not the zero vector
  (its length is 0.00005) and lies in \<open>[-1, 1]\<close>, so the server stores it as it is; the tick
  does not normalise it to unit length but moves the player by nothing, where the nominal
  step \<open>speed * dt\<close> is 6.
\<close>

theorem short_intent_is_not_normalized:
  "hypot (1 / 20000) 0 = 1 / 20000
   \<and> PLAYER_SPEED * (MS_PER_TICK / 1000) = 6
   \<and> tickDisplacement (Some \<lparr>i_seq = 1, i_dx = Some (1 / 20000), i_dy = Some 0, i_ts = None\<rparr>)
       = (0, 0)"
proof -
  have h: "hypot (1 / 20000) 0 = 1 / 20000" by (simp add: hypot_def power_divide real_sqrt_divide)
  then have "normalizeIntent (1 / 20000) 0 = (0, 0)"
    by (simp only: normalizeIntent_def Let_def) simp
  then have "tickDisplacement (Some \<lparr>i_seq = 1, i_dx = Some (1 / 20000), i_dy = Some 0, i_ts = None\<rparr>)
       = (0, 0)"
    by (simp add: tickDisplacement_eq orZero_simps Let_def)
  with h step_length show ?thesis by simp
qed

text \<open>
  C5, amended. With \<open>(dx, dy)\<close> the intent vector the tick reads and \<open>len\<close> its length: when
  \<open>len > 0.0001\<close> the displacement is \<open>(dx / len, dy / len)\<close> scaled by \<open>speed * dt\<close>, of
  magnitude \<open>speed * dt\<close>; otherwise (the zero vector included) it is zero. The magnitude
  never exceeds 1.2 times \<open>speed * dt\<close>. A player with no stored intent, or whose \<open>dx\<close> and
  \<open>dy\<close> are not numbers, is displaced by zero. The position is the old one plus the
  displacement, clamped to the map inset by 8.
\<close>

theorem tick_movement_rule:
  "tickDisplacement li =
     (if hypot (fst (intentVector li)) (snd (intentVector li)) > 1 / 10000
      then (fst (intentVector li) / hypot (fst (intentVector li)) (snd (intentVector li))
              * (PLAYER_SPEED * (MS_PER_TICK / 1000)),
            snd (intentVector li) / hypot (fst (intentVector li)) (snd (intentVector li))
              * (PLAYER_SPEED * (MS_PER_TICK / 1000)))
      else (0, 0))
   \<and> hypot (fst (tickDisplacement li)) (snd (tickDisplacement li)) =
       (if hypot (fst (intentVector li)) (snd (intentVector li)) > 1 / 10000
        then PLAYER_SPEED * (MS_PER_TICK / 1000) else 0)
   \<and> hypot (fst (tickDisplacement li)) (snd (tickDisplacement li))
       \<le> (12 / 10) * (PLAYER_SPEED * (MS_PER_TICK / 1000))
   \<and> tickDisplacement None = (0, 0)
   \<and> tickDisplacement (Some (i\<lparr>i_dx := None, i_dy := None\<rparr>)) = (0, 0)
   \<and> p_x (movePlayer p) = max 8 (min (MAP_W - 8) (p_x p + fst (tickDisplacement (p_lastInput p))))
   \<and> p_y (movePlayer p) = max 8 (min (MAP_H - 8) (p_y p + snd (tickDisplacement (p_lastInput p))))"
proof -
  define dx where "dx = fst (intentVector li)"
  define dy where "dy = snd (intentVector li)"
  define n where "n = normalizeIntent dx dy"
  have d: "tickDisplacement li = (fst n * 6, snd n * 6)"
    using tickDisplacement_eq [of li]
    unfolding Let_def step_length by (simp add: n_def dx_def dy_def intentVector_def)
  have a: "tickDisplacement li =
     (if hypot dx dy > 1 / 10000 then (dx / hypot dx dy * 6, dy / hypot dx dy * 6) else (0, 0))"
    by (simp add: d n_def normalizeIntent_def Let_def)
  have "hypot (fst n * 6) (snd n * 6) = hypot (fst n) (snd n) * 6"
    by (rule hypot_scale) simp
  moreover have "hypot (fst n) (snd n) = (if hypot dx dy > 1 / 10000 then 1 else 0)"
    using normalizeIntent_unit [of dx dy] normalizeIntent_small [of dx dy]
    by (simp add: n_def hypot_zero)
  ultimately have b: "hypot (fst (tickDisplacement li)) (snd (tickDisplacement li)) =
       (if hypot dx dy > 1 / 10000 then 6 else 0)"
    by (simp add: d)
  then have c: "hypot (fst (tickDisplacement li)) (snd (tickDisplacement li)) \<le> (12 / 10) * 6"
    by simp
  have e: "tickDisplacement None = (0, 0)"
    using tickDisplacement_eq [of None]
    by (simp add: Let_def orZero_simps normalizeIntent_def hypot_zero)
  have f: "tickDisplacement (Some (i\<lparr>i_dx := None, i_dy := None\<rparr>)) = (0, 0)"
    using tickDisplacement_eq [of "Some (i\<lparr>i_dx := None, i_dy := None\<rparr>)"]
    by (simp add: Let_def orZero_simps normalizeIntent_def hypot_zero)
  have g: "p_x (movePlayer p) = max 8 (min (MAP_W - 8) (p_x p + fst (tickDisplacement (p_lastInput p))))"
    "p_y (movePlayer p) = max 8 (min (MAP_H - 8) (p_y p + snd (tickDisplacement (p_lastInput p))))"
    by (simp_all add: movePlayer_def Let_def)
  show ?thesis
    unfolding step_length
    using a b c e f g unfolding dx_def dy_def by (intro conjI) assumption+
qed

subsection \<open>Joining\<close>

lemma update_fresh_appends: "k \<notin> fst ` set al \<Longrightarrow> AList.update k v al = al @ [(k, v)]"
  by (induction al) auto

subsection \<open>Reconciliation\<close>

lemma reconcile_pending:
  "pendingInputs (reconcile sp c) =
     dropWhile (\<lambda>inp. real_of_int (pi_seq inp) \<le> orZero (e_lastInputSeq sp)) (pendingInputs c)"
  by (simp add: reconcile_def Let_def)

lemma reconcile_frame:
  "inputSeq (reconcile sp c) = inputSeq c \<and> myId (reconcile sp c) = myId c
   \<and> joined (reconcile sp c) = joined c \<and> snapshotBuffer (reconcile sp c) = snapshotBuffer c
   \<and> currentInput (reconcile sp c) = currentInput c \<and> keys (reconcile sp c) = keys c"
  by (simp add: reconcile_def Let_def)

lemma processSnapshot_cases:
  "stateOf (processSnapshotForReconciliation snap c) = c
   \<or> (\<exists>sp. stateOf (processSnapshotForReconciliation snap c) = reconcile sp c)"
  by (auto simp add: processSnapshotForReconciliation_def stateOf_simps
      split: option.splits sum.splits)

lemma processSnapshot_pending_suffix:
  "\<exists>n. pendingInputs (stateOf (processSnapshotForReconciliation snap c)) = drop n (pendingInputs c)"
proof -
  from processSnapshot_cases [of snap c] show ?thesis
  proof (elim disjE exE)
    assume "stateOf (processSnapshotForReconciliation snap c) = c"
    then have "pendingInputs (stateOf (processSnapshotForReconciliation snap c))
                 = drop 0 (pendingInputs c)" by simp
    then show ?thesis by blast
  next
    fix sp
    assume "stateOf (processSnapshotForReconciliation snap c) = reconcile sp c"
    then have "pendingInputs (stateOf (processSnapshotForReconciliation snap c)) =
        dropWhile (\<lambda>inp. real_of_int (pi_seq inp) \<le> orZero (e_lastInputSeq sp)) (pendingInputs c)"
      by (simp add: reconcile_pending)
    then show ?thesis by (metis dropWhile_eq_drop)
  qed
qed

lemma processSnapshot_inputSeq:
  "inputSeq (stateOf (processSnapshotForReconciliation snap c)) = inputSeq c"
  using processSnapshot_cases [of snap c] by (auto simp add: reconcile_frame)

lemma clientStep_pending:
  "(\<exists>n. pendingInputs (clientStep ev c) = drop n (pendingInputs c) \<and> inputSeq (clientStep ev c) = inputSeq c)
   \<or> (inputSeq (clientStep ev c) = inputSeq c + 1
       \<and> (\<exists>inp. pi_seq inp = inputSeq c + 1 \<and> pendingInputs (clientStep ev c) = pendingInputs c @ [inp]))"
proof (cases ev)
  case (Key ks)
  then have "pendingInputs (clientStep ev c) = drop 0 (pendingInputs c) \<and> inputSeq (clientStep ev c) = inputSeq c"
    by (simp add: onKey_def updateCurrentInputFromKeys_def Let_def)
  then show ?thesis by blast
next
  case (SendInput now wsOpen)
  show ?thesis
  proof (cases "wsOpen \<and> joined c")
    case True
    with SendInput show ?thesis by (simp add: sendInput_def Let_def)
  next
    case False
    with SendInput have "pendingInputs (clientStep ev c) = drop 0 (pendingInputs c)
        \<and> inputSeq (clientStep ev c) = inputSeq c"
      by (auto simp add: sendInput_def)
    then show ?thesis by blast
  qed
next
  case (Frame cw ch now)
  then have "pendingInputs (clientStep ev c) = drop 0 (pendingInputs c) \<and> inputSeq (clientStep ev c) = inputSeq c"
    by (simp add: localPredictionStep_def Let_def)
  then show ?thesis by blast
next
  case (Receive now pkt)
  show ?thesis
  proof (cases pkt)
    case (SnapshotPkt snap)
    from processSnapshot_pending_suffix [of snap "pushSnapshot now snap c"]
    obtain n where "pendingInputs (stateOf (processSnapshotForReconciliation snap (pushSnapshot now snap c)))
        = drop n (pendingInputs c)"
      by (auto simp add: pushSnapshot_def)
    with Receive SnapshotPkt show ?thesis
      by (auto simp add: processSnapshot_inputSeq pushSnapshot_def)
  next
    case (JoinAck i t w h ps cs)
    with Receive have "pendingInputs (clientStep ev c) = drop 0 (pendingInputs c)
        \<and> inputSeq (clientStep ev c) = inputSeq c"
      by (simp add: Let_def stateOf_simps split: option.splits)
    then show ?thesis by blast
  next
    case (Welcome t)
    with Receive have "pendingInputs (clientStep ev c) = drop 0 (pendingInputs c)
        \<and> inputSeq (clientStep ev c) = inputSeq c" by (simp add: stateOf_simps)
    then show ?thesis by blast
  next
    case (JoinReject r)
    with Receive have "pendingInputs (clientStep ev c) = drop 0 (pendingInputs c)
        \<and> inputSeq (clientStep ev c) = inputSeq c" by (simp add: stateOf_simps)
    then show ?thesis by blast
  next
    case (Pong ts t)
    with Receive have "pendingInputs (clientStep ev c) = drop 0 (pendingInputs c)
        \<and> inputSeq (clientStep ev c) = inputSeq c" by (simp add: stateOf_simps)
    then show ?thesis by blast
  qed
next
  case SocketClose
  then have "pendingInputs (clientStep ev c) = drop 0 (pendingInputs c) \<and> inputSeq (clientStep ev c) = inputSeq c"
    by (simp add: onSocketClose_def)
  then show ?thesis by blast
next
  case (SendJoin nm)
  then have "pendingInputs (clientStep ev c) = drop 0 (pendingInputs c) \<and> inputSeq (clientStep ev c) = inputSeq c"
    by (simp add: sendJoin_def)
  then show ?thesis by blast
qed

text \<open>
  In every state the client reaches, the pending inputs carry strictly increasing sequence
  numbers, none above \<open>inputSeq\<close>: they are appended with \<open>inputSeq\<close> just incremented and
  only ever shifted off the front.
\<close>

lemma pending_increasing:
  "clientReachable c \<Longrightarrow>
   sorted_wrt (<) (map pi_seq (pendingInputs c)) \<and> (\<forall>inp \<in> set (pendingInputs c). pi_seq inp \<le> inputSeq c)"
proof (induction rule: clientReachable.induct)
  case (client_init canvasW canvasH now)
  show ?case by (simp add: initialClient_def)
next
  case (client_step c ev)
  from clientStep_pending [of ev c] show ?case
  proof (elim disjE exE conjE)
    fix n
    assume a: "pendingInputs (clientStep ev c) = drop n (pendingInputs c)"
      and b: "inputSeq (clientStep ev c) = inputSeq c"
    have "sorted_wrt (<) (drop n (map pi_seq (pendingInputs c)))"
      using client_step.IH by (simp add: sorted_wrt_drop)
    moreover have "set (drop n (pendingInputs c)) \<subseteq> set (pendingInputs c)" by (rule set_drop_subset)
    ultimately show ?thesis using client_step.IH a b by (auto simp add: drop_map)
  next
    fix inp
    assume a: "inputSeq (clientStep ev c) = inputSeq c + 1"
      and b: "pi_seq inp = inputSeq c + 1"
      and d: "pendingInputs (clientStep ev c) = pendingInputs c @ [inp]"
    from client_step.IH a b d show ?thesis
      by (auto simp add: sorted_wrt_append)
  qed
qed

lemma dropWhile_acknowledged:
  "sorted_wrt (<) (map pi_seq q) \<Longrightarrow>
   dropWhile (\<lambda>inp. real_of_int (pi_seq inp) \<le> a) q = filter (\<lambda>inp. \<not> real_of_int (pi_seq inp) \<le> a) q"
proof (induction q)
  case Nil
  show ?case by simp
next
  case (Cons inp q)
  show ?case
  proof (cases "real_of_int (pi_seq inp) \<le> a")
    case True
    with Cons show ?thesis by simp
  next
    case False
    from Cons.prems have "\<forall>later \<in> set q. pi_seq inp < pi_seq later" by simp
    with False have "\<forall>later \<in> set q. \<not> real_of_int (pi_seq later) \<le> a" by force
    then have "filter (\<lambda>i. \<not> real_of_int (pi_seq i) \<le> a) q = q" by (simp add: filter_id_conv)
    with False show ?thesis by simp
  qed
qed

lemma replay_position:
  "l_x (foldl replayInput l q) =
     l_x l + (\<Sum>inp \<leftarrow> q.
               (if hypot (pi_dx inp) (pi_dy inp) > 1 / 10000
                then pi_dx inp / hypot (pi_dx inp) (pi_dy inp) else 0)
                 * PLAYER_SPEED * (CLIENT_SEND_RATE / 1000))
   \<and> l_y (foldl replayInput l q) =
     l_y l + (\<Sum>inp \<leftarrow> q.
               (if hypot (pi_dx inp) (pi_dy inp) > 1 / 10000
                then pi_dy inp / hypot (pi_dx inp) (pi_dy inp) else 0)
                 * PLAYER_SPEED * (CLIENT_SEND_RATE / 1000))
   \<and> l_score (foldl replayInput l q) = l_score l
   \<and> l_name (foldl replayInput l q) = l_name l"
  by (induction q arbitrary: l) (simp_all add: replayInput_def normalizeIntent_def Let_def)

lemma client0_fields:
  "joined client0" "myId client0 = Some ''me01''"
  "pendingInputs client0 =
     [\<lparr>pi_seq = 1, pi_dx = 1, pi_dy = 0, pi_ts = 50\<rparr>,
      \<lparr>pi_seq = 2, pi_dx = 1, pi_dy = 0, pi_ts = 100\<rparr>,
      \<lparr>pi_seq = 3, pi_dx = 1, pi_dy = 0, pi_ts = 150\<rparr>]"
  "localSt client0 = \<lparr>l_x = 10, l_y = 10, l_score = 0, l_name = JStr ''Ann''\<rparr>"
  by (simp_all add: client0_def initialClient_def onKey_def updateCurrentInputFromKeys_def
      sendInput_def Let_def stateOf_simps)

lemma client0_reachable: "clientReachable client0"
  unfolding client0_def by (intro clientReachable.intros)

lemma client1_fields:
  "joined client1" "myId client1 = Some ''me01''"
  "pendingInputs client1 =
     [\<lparr>pi_seq = 1, pi_dx = 1, pi_dy = 0, pi_ts = 50\<rparr>,
      \<lparr>pi_seq = 2, pi_dx = 1, pi_dy = 0, pi_ts = 100\<rparr>,
      \<lparr>pi_seq = 3, pi_dx = 1, pi_dy = 0, pi_ts = 150\<rparr>,
      \<lparr>pi_seq = 4, pi_dx = 1, pi_dy = - 1, pi_ts = 200\<rparr>]"
  "localSt client1 = \<lparr>l_x = 10, l_y = 10, l_score = 0, l_name = JStr ''Ann''\<rparr>"
  by (simp_all add: client1_def client0_def initialClient_def onKey_def
      updateCurrentInputFromKeys_def sendInput_def Let_def stateOf_simps)

lemma client1_reachable: "clientReachable client1"
  unfolding client1_def by (intro clientReachable.intros client0_reachable)

text \<open>
  C6 (a name that is not a string). The client, joined as \<open>me01\<close> at \<open>(10, 10)\<close> with the
  inputs 1, 2 and 3 pending and the score 0, receives a snapshot that holds its own entry,
  at \<open>(100, 50)\<close> with 4 points and input 1 acknowledged, and the entry of a player named
  7. \<open>updateScoresDisplay\<close>, called before anything is reconciled, throws on
  \<open>p.name.slice\<close>: the handler ends with the snapshot buffered and nothing else changed.
  Input 1 stays pending, the position stays \<open>(10, 10)\<close> and the score stays 0. The server
  does relay such a name: it accepts the join and lists the name in its snapshots.
\<close>

theorem reconciliation_skipped_when_a_name_is_not_a_string:
  "clientReachable client0 \<and> joined client0 \<and> myId client0 = Some ''me01''
   \<and> map pi_seq (pendingInputs client0) = [1, 2, 3]
   \<and> localSt client0 = \<lparr>l_x = 10, l_y = 10, l_score = 0, l_name = JStr ''Ann''\<rparr>
   \<and> map (\<lambda>p. (e_id p, e_name p)) (snapPlayers snapshot7)
       = [(''other'', JNum 7), (''me01'', JStr ''Ann'')]
   \<and> map_option (\<lambda>p. (e_x p, e_y p, e_score p, e_lastInputSeq p))
        (find (\<lambda>p. e_id p = ''me01'') (snapPlayers snapshot7)) = Some (100, 50, 4, Some 1)
   \<and> processSnapshotForReconciliation snapshot7 client0 = Inl (TypeError, client0)
   \<and> map pi_seq (pendingInputs (clientStep (Receive 200 (SnapshotPkt snapshot7)) client0))
       = [1, 2, 3]
   \<and> localSt (clientStep (Receive 200 (SnapshotPkt snapshot7)) client0)
       = \<lparr>l_x = 10, l_y = 10, l_score = 0, l_name = JStr ''Ann''\<rparr>
   \<and> (\<exists>s' es. handleClientMessage env1 2 (Join (Some (JNum 7))) joinedServer = Inr s'
         \<and> snapshotPlayers (players s') = Inr es
         \<and> map e_name es = [JStr ''Ann'', JNum 7])"
proof -
  have a: "processSnapshotForReconciliation snapshot7 client0 = Inl (TypeError, client0)"
    by (simp add: processSnapshotForReconciliation_def client0_fields snapshot7_def
        updateScoresDisplay_def)
  have b: "processSnapshotForReconciliation snapshot7 (pushSnapshot 200 snapshot7 client0)
             = Inl (TypeError, pushSnapshot 200 snapshot7 client0)"
    by (simp add: processSnapshotForReconciliation_def client0_fields snapshot7_def
        updateScoresDisplay_def pushSnapshot_def)
  have c: "clientStep (Receive 200 (SnapshotPkt snapshot7)) client0
             = pushSnapshot 200 snapshot7 client0"
    by (simp add: b stateOf_simps)
  have d: "map pi_seq (pendingInputs (clientStep (Receive 200 (SnapshotPkt snapshot7)) client0))
             = [1, 2, 3]"
    "localSt (clientStep (Receive 200 (SnapshotPkt snapshot7)) client0)
       = \<lparr>l_x = 10, l_y = 10, l_score = 0, l_name = JStr ''Ann''\<rparr>"
    unfolding c by (simp_all add: pushSnapshot_def client0_fields)
  have e: "map (\<lambda>p. (e_id p, e_name p)) (snapPlayers snapshot7)
       = [(''other'', JNum 7), (''me01'', JStr ''Ann'')]"
    "map_option (\<lambda>p. (e_x p, e_y p, e_score p, e_lastInputSeq p))
        (find (\<lambda>p. e_id p = ''me01'') (snapPlayers snapshot7)) = Some (100, 50, 4, Some 1)"
    by (simp_all add: snapshot7_def)
  let ?s' = "sendWithLatency (env_jitter env1) (env_now env1) 2
      (JoinAck (env_uuid env1) (env_now env1) MAP_W MAP_H
         [playerView (newPlayer env0 (Some (JStr ''Ann''))), playerView (newPlayer env1 (Some (JNum 7)))] [])
      (joinedServer\<lparr>players := [(''a1b2c3'', newPlayer env0 (Some (JStr ''Ann''))),
                                 (''d4e5f6'', newPlayer env1 (Some (JNum 7)))],
                    sockets := [(1, Some ''a1b2c3''), (2, Some ''d4e5f6'')]\<rparr>)"
  have u: "env_uuid env1 = ''d4e5f6''" by (simp add: env1_def)
  have f: "handleClientMessage env1 2 (Join (Some (JNum 7))) joinedServer = Inr ?s'"
    by (simp add: joinedServer_eq MAX_PLAYERS_def Let_def newPlayer_name u)
  let ?es = "[\<lparr>e_id = ''a1b2c3'', e_name = JStr ''Ann'', e_x = p_x (newPlayer env0 (Some (JStr ''Ann''))),
            e_y = p_y (newPlayer env0 (Some (JStr ''Ann''))), e_score = 0, e_lastInputSeq = Some 0\<rparr>,
           \<lparr>e_id = ''d4e5f6'', e_name = JNum 7, e_x = p_x (newPlayer env1 (Some (JNum 7))),
            e_y = p_y (newPlayer env1 (Some (JNum 7))), e_score = 0, e_lastInputSeq = Some 0\<rparr>]"
  have g: "snapshotPlayers (players ?s') = Inr ?es"
    by (simp add: sendWithLatency_def newPlayer_def env0_def env1_def)
  from f g have h: "\<exists>s' es. handleClientMessage env1 2 (Join (Some (JNum 7))) joinedServer = Inr s'
         \<and> snapshotPlayers (players s') = Inr es
         \<and> map e_name es = [JStr ''Ann'', JNum 7]"
    by (intro exI [of _ ?s'] exI [of _ ?es])
      (simp del: handleClientMessage.simps snapshotPlayers.simps)
  from client0_reachable client0_fields a d e h show ?thesis
    by (simp del: handleClientMessage.simps snapshotPlayers.simps clientStep.simps)
qed

theorem reconciliation_skipped_when_a_name_is_not_a_string_witness:
  "joined client0 \<and> myId client0 = Some ''me01''
   \<and> find (\<lambda>p. Some (e_id p) = myId client0) (snapPlayers snapshot7) \<noteq> None
   \<and> updateScoresDisplay (snapPlayers snapshot7) = Inl TypeError
   \<and> stateOf (processSnapshotForReconciliation snapshot7 client0) = client0
   \<and> pendingInputs (stateOf (processSnapshotForReconciliation snapshot7 client0))
       = pendingInputs client0"
proof -
  note t = reconciliation_skipped_when_a_name_is_not_a_string
  from t have j: "joined client0" "myId client0 = Some ''me01''" by simp_all
  have f: "find (\<lambda>p. Some (e_id p) = myId client0) (snapPlayers snapshot7) \<noteq> None"
    by (simp add: j snapshot7_def)
  have u: "updateScoresDisplay (snapPlayers snapshot7) = Inl TypeError"
    by (simp add: updateScoresDisplay_def snapshot7_def)
  from t have "processSnapshotForReconciliation snapshot7 client0 = Inl (TypeError, client0)"
    by simp
  then have s: "stateOf (processSnapshotForReconciliation snapshot7 client0) = client0"
    by (simp only: stateOf_simps)
  then have p: "pendingInputs (stateOf (processSnapshotForReconciliation snapshot7 client0))
       = pendingInputs client0"
    by (simp only:)
  from j f u s p show ?thesis by (intro conjI)
qed

subsection \<open>Reconciliation when the score board can be written\<close>

text \<open>
  In a state the client reaches, joined under the identifier \<open>me\<close>, a snapshot whose first
  entry for \<open>me\<close> is \<open>sp\<close>. If every name listed is a string, or an array whose first
  eight elements can be converted to strings, the function returns and has reconciled:
  the pending inputs kept are exactly those whose sequence number is not at most
  \<open>sp.lastInputSeq || 0\<close>, in their order; if the squared distance between \<open>sp\<close> and the
  local position exceeds 0.0001, the local position becomes that of \<open>sp\<close> plus, for each
  pending input kept, \<open>(dx / len, dy / len)\<close> (or zero when \<open>len\<close>, the length of
  \<open>(dx, dy)\<close>, is not above 0.0001) times \<open>PLAYER_SPEED\<close> times the send interval of
  \<open>CLIENT_SEND_RATE\<close> ms; otherwise the local position stays. In both cases the local
  score becomes that of \<open>sp\<close>; the name and the rest of the client stay. If some name
  listed is not such a value, the function throws and has changed nothing.
\<close>

theorem reconciliation_when_names_are_strings:
  assumes "clientReachable c" and "joined c" and "myId c = Some me" and "me \<noteq> []"
    and "find (\<lambda>p. e_id p = me) (snapPlayers snap) = Some sp"
  shows "(list_all (\<lambda>p. canSliceToString (e_name p)) (snapPlayers snap) \<longrightarrow>
       (\<exists>c'. processSnapshotForReconciliation snap c = Inr c'
          \<and> pendingInputs c' =
              filter (\<lambda>inp. \<not> real_of_int (pi_seq inp) \<le> orZero (e_lastInputSeq sp)) (pendingInputs c)
          \<and> ((e_x sp - l_x (localSt c)) * (e_x sp - l_x (localSt c))
               + (e_y sp - l_y (localSt c)) * (e_y sp - l_y (localSt c)) > 1 / 10000 \<longrightarrow>
                l_x (localSt c') =
                  e_x sp + (\<Sum>inp \<leftarrow> pendingInputs c'.
                             (if hypot (pi_dx inp) (pi_dy inp) > 1 / 10000
                              then pi_dx inp / hypot (pi_dx inp) (pi_dy inp) else 0)
                               * PLAYER_SPEED * (CLIENT_SEND_RATE / 1000))
              \<and> l_y (localSt c') =
                  e_y sp + (\<Sum>inp \<leftarrow> pendingInputs c'.
                             (if hypot (pi_dx inp) (pi_dy inp) > 1 / 10000
                              then pi_dy inp / hypot (pi_dx inp) (pi_dy inp) else 0)
                               * PLAYER_SPEED * (CLIENT_SEND_RATE / 1000)))
          \<and> ((e_x sp - l_x (localSt c)) * (e_x sp - l_x (localSt c))
               + (e_y sp - l_y (localSt c)) * (e_y sp - l_y (localSt c)) \<le> 1 / 10000 \<longrightarrow>
                l_x (localSt c') = l_x (localSt c) \<and> l_y (localSt c') = l_y (localSt c))
          \<and> l_score (localSt c') = e_score sp
          \<and> l_name (localSt c') = l_name (localSt c)
          \<and> c'\<lparr>pendingInputs := [], localSt := localSt c\<rparr> = c\<lparr>pendingInputs := []\<rparr>))
     \<and> (\<not> list_all (\<lambda>p. canSliceToString (e_name p)) (snapPlayers snap) \<longrightarrow>
          processSnapshotForReconciliation snap c = Inl (TypeError, c))"
proof -
  let ?ack = "orZero (e_lastInputSeq sp)"
  let ?kept = "dropWhile (\<lambda>inp. real_of_int (pi_seq inp) \<le> ?ack) (pendingInputs c)"
  let ?far = "(e_x sp - l_x (localSt c)) * (e_x sp - l_x (localSt c))
          + (e_y sp - l_y (localSt c)) * (e_y sp - l_y (localSt c)) > 1 / 10000"
  let ?l1 = "if ?far then foldl replayInput ((localSt c)\<lparr>l_x := e_x sp, l_y := e_y sp\<rparr>) ?kept
             else localSt c"
  let ?c' = "reconcile sp c"
  from assms(3,5) have f: "find (\<lambda>p. Some (e_id p) = myId c) (snapPlayers snap) = Some sp"
    by simp
  have ret: "list_all (\<lambda>p. canSliceToString (e_name p)) (snapPlayers snap) \<Longrightarrow>
      processSnapshotForReconciliation snap c = Inr ?c'"
    unfolding processSnapshotForReconciliation_def using assms(2,3,4) f
    by (simp add: updateScoresDisplay_def)
  have thr: "\<not> list_all (\<lambda>p. canSliceToString (e_name p)) (snapPlayers snap) \<longrightarrow>
      processSnapshotForReconciliation snap c = Inl (TypeError, c)"
    unfolding processSnapshotForReconciliation_def using assms(2,3,4) f
    by (simp add: updateScoresDisplay_def)
  have eq: "?c' = c\<lparr>pendingInputs := ?kept, localSt := ?l1\<lparr>l_score := e_score sp\<rparr>\<rparr>"
    by (simp add: reconcile_def Let_def)
  from pending_increasing [OF assms(1)]
  have "sorted_wrt (<) (map pi_seq (pendingInputs c))" by simp
  from dropWhile_acknowledged [OF this, of ?ack]
  have kept: "?kept = filter (\<lambda>inp. \<not> real_of_int (pi_seq inp) \<le> ?ack) (pendingInputs c)" .
  have p: "pendingInputs ?c' = ?kept" by (simp add: eq)
  have a: "pendingInputs ?c' =
           filter (\<lambda>inp. \<not> real_of_int (pi_seq inp) \<le> ?ack) (pendingInputs c)"
    using kept p by simp
  have l: "localSt ?c' = ?l1\<lparr>l_score := e_score sp\<rparr>"
    by (simp add: eq)
  note rp = replay_position [of "(localSt c)\<lparr>l_x := e_x sp, l_y := e_y sp\<rparr>" ?kept]
  have b: "?far \<longrightarrow>
           l_x (localSt ?c') =
             e_x sp + (\<Sum>inp \<leftarrow> pendingInputs ?c'.
                        (if hypot (pi_dx inp) (pi_dy inp) > 1 / 10000
                         then pi_dx inp / hypot (pi_dx inp) (pi_dy inp) else 0)
                          * PLAYER_SPEED * (CLIENT_SEND_RATE / 1000))
         \<and> l_y (localSt ?c') =
             e_y sp + (\<Sum>inp \<leftarrow> pendingInputs ?c'.
                        (if hypot (pi_dx inp) (pi_dy inp) > 1 / 10000
                         then pi_dy inp / hypot (pi_dx inp) (pi_dy inp) else 0)
                          * PLAYER_SPEED * (CLIENT_SEND_RATE / 1000))"
    unfolding p l using rp by simp
  have d: "\<not> ?far \<longrightarrow> l_x (localSt ?c') = l_x (localSt c) \<and> l_y (localSt ?c') = l_y (localSt c)"
    unfolding l by simp
  then have d': "(e_x sp - l_x (localSt c)) * (e_x sp - l_x (localSt c))
               + (e_y sp - l_y (localSt c)) * (e_y sp - l_y (localSt c)) \<le> 1 / 10000 \<longrightarrow>
                l_x (localSt ?c') = l_x (localSt c) \<and> l_y (localSt ?c') = l_y (localSt c)"
    by (simp only: not_less)
  have e: "l_score (localSt ?c') = e_score sp"
    unfolding l by simp
  have g: "l_name (localSt ?c') = l_name (localSt c)"
    unfolding l using rp by simp
  have h: "?c'\<lparr>pendingInputs := [], localSt := localSt c\<rparr> = c\<lparr>pendingInputs := []\<rparr>"
    by (simp add: eq)
  have first: "list_all (\<lambda>p. canSliceToString (e_name p)) (snapPlayers snap) \<longrightarrow>
       (\<exists>c'. processSnapshotForReconciliation snap c = Inr c'
          \<and> pendingInputs c' =
              filter (\<lambda>inp. \<not> real_of_int (pi_seq inp) \<le> orZero (e_lastInputSeq sp)) (pendingInputs c)
          \<and> ((e_x sp - l_x (localSt c)) * (e_x sp - l_x (localSt c))
               + (e_y sp - l_y (localSt c)) * (e_y sp - l_y (localSt c)) > 1 / 10000 \<longrightarrow>
                l_x (localSt c') =
                  e_x sp + (\<Sum>inp \<leftarrow> pendingInputs c'.
                             (if hypot (pi_dx inp) (pi_dy inp) > 1 / 10000
                              then pi_dx inp / hypot (pi_dx inp) (pi_dy inp) else 0)
                               * PLAYER_SPEED * (CLIENT_SEND_RATE / 1000))
              \<and> l_y (localSt c') =
                  e_y sp + (\<Sum>inp \<leftarrow> pendingInputs c'.
                             (if hypot (pi_dx inp) (pi_dy inp) > 1 / 10000
                              then pi_dy inp / hypot (pi_dx inp) (pi_dy inp) else 0)
                               * PLAYER_SPEED * (CLIENT_SEND_RATE / 1000)))
          \<and> ((e_x sp - l_x (localSt c)) * (e_x sp - l_x (localSt c))
               + (e_y sp - l_y (localSt c)) * (e_y sp - l_y (localSt c)) \<le> 1 / 10000 \<longrightarrow>
                l_x (localSt c') = l_x (localSt c) \<and> l_y (localSt c') = l_y (localSt c))
          \<and> l_score (localSt c') = e_score sp
          \<and> l_name (localSt c') = l_name (localSt c)
          \<and> c'\<lparr>pendingInputs := [], localSt := localSt c\<rparr> = c\<lparr>pendingInputs := []\<rparr>)"
  proof
    assume "list_all (\<lambda>p. canSliceToString (e_name p)) (snapPlayers snap)"
    from ret [OF this] a b d' e g h show "\<exists>c'. processSnapshotForReconciliation snap c = Inr c'
          \<and> pendingInputs c' =
              filter (\<lambda>inp. \<not> real_of_int (pi_seq inp) \<le> orZero (e_lastInputSeq sp)) (pendingInputs c)
          \<and> ((e_x sp - l_x (localSt c)) * (e_x sp - l_x (localSt c))
               + (e_y sp - l_y (localSt c)) * (e_y sp - l_y (localSt c)) > 1 / 10000 \<longrightarrow>
                l_x (localSt c') =
                  e_x sp + (\<Sum>inp \<leftarrow> pendingInputs c'.
                             (if hypot (pi_dx inp) (pi_dy inp) > 1 / 10000
                              then pi_dx inp / hypot (pi_dx inp) (pi_dy inp) else 0)
                               * PLAYER_SPEED * (CLIENT_SEND_RATE / 1000))
              \<and> l_y (localSt c') =
                  e_y sp + (\<Sum>inp \<leftarrow> pendingInputs c'.
                             (if hypot (pi_dx inp) (pi_dy inp) > 1 / 10000
                              then pi_dy inp / hypot (pi_dx inp) (pi_dy inp) else 0)
                               * PLAYER_SPEED * (CLIENT_SEND_RATE / 1000)))
          \<and> ((e_x sp - l_x (localSt c)) * (e_x sp - l_x (localSt c))
               + (e_y sp - l_y (localSt c)) * (e_y sp - l_y (localSt c)) \<le> 1 / 10000 \<longrightarrow>
                l_x (localSt c') = l_x (localSt c) \<and> l_y (localSt c') = l_y (localSt c))
          \<and> l_score (localSt c') = e_score sp
          \<and> l_name (localSt c') = l_name (localSt c)
          \<and> c'\<lparr>pendingInputs := [], localSt := localSt c\<rparr> = c\<lparr>pendingInputs := []\<rparr>"
      by (intro exI [of _ ?c'] conjI)
  qed
  from first thr show ?thesis by (rule conjI)
qed

lemma hypot_diagonal: "hypot 1 (- 1) = sqrt 2" "hypot 1 0 = 1"
  by (simp_all add: hypot_def)

lemma sqrt2_large: "(1 :: real) / 10000 < sqrt 2" "1 < sqrt 2 * 10000"
proof -
  have "(1 :: real) / 10000 < 1" by simp
  also have "(1 :: real) < sqrt 2" by simp
  finally show "(1 :: real) / 10000 < sqrt 2" .
  then show "1 < sqrt 2 * 10000" by simp
qed

theorem reconciliation_when_names_are_strings_witness:
  "clientReachable client1 \<and> joined client1 \<and> myId client1 = Some ''me01''
   \<and> map (\<lambda>inp. (pi_seq inp, pi_dx inp, pi_dy inp)) (pendingInputs client1)
       = [(1, 1, 0), (2, 1, 0), (3, 1, 0), (4, 1, - 1)]
   \<and> localSt client1 = \<lparr>l_x = 10, l_y = 10, l_score = 0, l_name = JStr ''Ann''\<rparr>
   \<and> list_all (\<lambda>p. canSliceToString (e_name p)) (snapPlayers snapshot0)
   \<and> map_option e_lastInputSeq (find (\<lambda>p. e_id p = ''me01'') (snapPlayers snapshot0)) = Some (Some 1)
   \<and> (\<exists>c'. processSnapshotForReconciliation snapshot0 client1 = Inr c'
         \<and> map pi_seq (pendingInputs c') = [2, 3, 4]
         \<and> localSt c' = \<lparr>l_x = 112 + 6 / sqrt 2, l_y = 50 - 6 / sqrt 2, l_score = 4,
                          l_name = JStr ''Ann''\<rparr>)
   \<and> (\<exists>c'. processSnapshotForReconciliation snapshot1 client1 = Inr c'
         \<and> map pi_seq (pendingInputs c') = [4]
         \<and> localSt c' = \<lparr>l_x = 10, l_y = 10, l_score = 5, l_name = JStr ''Ann''\<rparr>)
   \<and> \<not> list_all (\<lambda>p. canSliceToString (e_name p)) (snapPlayers snapshot7)
   \<and> processSnapshotForReconciliation snapshot7 client1 = Inl (TypeError, client1)"
proof -
  let ?sp0 = "\<lparr>e_id = ''me01'', e_name = JStr ''Ann'', e_x = 100, e_y = 50, e_score = 4,
          e_lastInputSeq = Some 1\<rparr>"
  let ?sp1 = "\<lparr>e_id = ''me01'', e_name = JStr ''Ann'', e_x = 10, e_y = 10, e_score = 5,
          e_lastInputSeq = Some 3\<rparr>"
  have ne: "''me01'' \<noteq> []" by simp
  have f0: "find (\<lambda>p. e_id p = ''me01'') (snapPlayers snapshot0) = Some ?sp0"
    by (simp add: snapshot0_def)
  have f1: "find (\<lambda>p. e_id p = ''me01'') (snapPlayers snapshot1) = Some ?sp1"
    by (simp add: snapshot1_def)
  have f7: "find (\<lambda>p. e_id p = ''me01'') (snapPlayers snapshot7) = Some ?sp0"
    by (simp add: snapshot7_def)
  have n0: "list_all (\<lambda>p. canSliceToString (e_name p)) (snapPlayers snapshot0)"
    by (simp add: snapshot0_def)
  have n1: "list_all (\<lambda>p. canSliceToString (e_name p)) (snapPlayers snapshot1)"
    by (simp add: snapshot1_def)
  have n7: "\<not> list_all (\<lambda>p. canSliceToString (e_name p)) (snapPlayers snapshot7)"
    by (simp add: snapshot7_def)
  note t0 = reconciliation_when_names_are_strings
    [OF client1_reachable client1_fields(1) client1_fields(2) ne f0]
  note t1 = reconciliation_when_names_are_strings
    [OF client1_reachable client1_fields(1) client1_fields(2) ne f1]
  note t7 = reconciliation_when_names_are_strings
    [OF client1_reachable client1_fields(1) client1_fields(2) ne f7]
  have far: "(e_x ?sp0 - l_x (localSt client1)) * (e_x ?sp0 - l_x (localSt client1))
          + (e_y ?sp0 - l_y (localSt client1)) * (e_y ?sp0 - l_y (localSt client1)) > 1 / 10000"
    by (simp add: client1_fields)
  have near: "(e_x ?sp1 - l_x (localSt client1)) * (e_x ?sp1 - l_x (localSt client1))
          + (e_y ?sp1 - l_y (localSt client1)) * (e_y ?sp1 - l_y (localSt client1)) \<le> 1 / 10000"
    by (simp add: client1_fields)
  from t0 [THEN conjunct1, rule_format, OF n0] obtain c0 where c0:
    "processSnapshotForReconciliation snapshot0 client1 = Inr c0"
    "pendingInputs c0 =
       filter (\<lambda>inp. \<not> real_of_int (pi_seq inp) \<le> orZero (e_lastInputSeq ?sp0)) (pendingInputs client1)"
    "(e_x ?sp0 - l_x (localSt client1)) * (e_x ?sp0 - l_x (localSt client1))
       + (e_y ?sp0 - l_y (localSt client1)) * (e_y ?sp0 - l_y (localSt client1)) > 1 / 10000 \<longrightarrow>
       l_x (localSt c0) =
         e_x ?sp0 + (\<Sum>inp \<leftarrow> pendingInputs c0.
                    (if hypot (pi_dx inp) (pi_dy inp) > 1 / 10000
                     then pi_dx inp / hypot (pi_dx inp) (pi_dy inp) else 0)
                      * PLAYER_SPEED * (CLIENT_SEND_RATE / 1000))
       \<and> l_y (localSt c0) =
         e_y ?sp0 + (\<Sum>inp \<leftarrow> pendingInputs c0.
                    (if hypot (pi_dx inp) (pi_dy inp) > 1 / 10000
                     then pi_dy inp / hypot (pi_dx inp) (pi_dy inp) else 0)
                      * PLAYER_SPEED * (CLIENT_SEND_RATE / 1000))"
    "l_score (localSt c0) = e_score ?sp0"
    "l_name (localSt c0) = l_name (localSt client1)"
    by blast
  have p0: "pendingInputs c0 =
      [\<lparr>pi_seq = 2, pi_dx = 1, pi_dy = 0, pi_ts = 100\<rparr>,
       \<lparr>pi_seq = 3, pi_dx = 1, pi_dy = 0, pi_ts = 150\<rparr>,
       \<lparr>pi_seq = 4, pi_dx = 1, pi_dy = - 1, pi_ts = 200\<rparr>]"
    using c0(2) by (simp add: client1_fields orZero_simps)
  from c0(3) far have "l_x (localSt c0) = 112 + 6 / sqrt 2" "l_y (localSt c0) = 50 - 6 / sqrt 2"
    by (simp_all add: p0 hypot_diagonal sqrt2_large PLAYER_SPEED_def CLIENT_SEND_RATE_def)
  with c0(4,5) have l0: "localSt c0 = \<lparr>l_x = 112 + 6 / sqrt 2, l_y = 50 - 6 / sqrt 2, l_score = 4,
                          l_name = JStr ''Ann''\<rparr>"
    by (cases "localSt c0") (simp add: client1_fields)
  from c0(1) p0 l0 have r0: "\<exists>c'. processSnapshotForReconciliation snapshot0 client1 = Inr c'
         \<and> map pi_seq (pendingInputs c') = [2, 3, 4]
         \<and> localSt c' = \<lparr>l_x = 112 + 6 / sqrt 2, l_y = 50 - 6 / sqrt 2, l_score = 4,
                          l_name = JStr ''Ann''\<rparr>"
    by simp
  from t1 [THEN conjunct1, rule_format, OF n1] obtain c1 where c1:
    "processSnapshotForReconciliation snapshot1 client1 = Inr c1"
    "pendingInputs c1 =
       filter (\<lambda>inp. \<not> real_of_int (pi_seq inp) \<le> orZero (e_lastInputSeq ?sp1)) (pendingInputs client1)"
    "(e_x ?sp1 - l_x (localSt client1)) * (e_x ?sp1 - l_x (localSt client1))
       + (e_y ?sp1 - l_y (localSt client1)) * (e_y ?sp1 - l_y (localSt client1)) \<le> 1 / 10000 \<longrightarrow>
       l_x (localSt c1) = l_x (localSt client1) \<and> l_y (localSt c1) = l_y (localSt client1)"
    "l_score (localSt c1) = e_score ?sp1"
    "l_name (localSt c1) = l_name (localSt client1)"
    by blast
  have p1: "map pi_seq (pendingInputs c1) = [4]"
    using c1(2) by (simp add: client1_fields orZero_simps)
  from c1(3) near have "l_x (localSt c1) = 10" "l_y (localSt c1) = 10"
    by (simp_all add: client1_fields)
  with c1(4,5) have l1: "localSt c1 = \<lparr>l_x = 10, l_y = 10, l_score = 5, l_name = JStr ''Ann''\<rparr>"
    by (cases "localSt c1") (simp add: client1_fields)
  from c1(1) p1 l1 have r1: "\<exists>c'. processSnapshotForReconciliation snapshot1 client1 = Inr c'
         \<and> map pi_seq (pendingInputs c') = [4]
         \<and> localSt c' = \<lparr>l_x = 10, l_y = 10, l_score = 5, l_name = JStr ''Ann''\<rparr>"
    by simp
  from t7 [THEN conjunct2, rule_format, OF n7]
  have r7: "processSnapshotForReconciliation snapshot7 client1 = Inl (TypeError, client1)" .
  have pend: "map (\<lambda>inp. (pi_seq inp, pi_dx inp, pi_dy inp)) (pendingInputs client1)
       = [(1, 1, 0), (2, 1, 0), (3, 1, 0), (4, 1, - 1)]"
    by (simp add: client1_fields)
  have ack: "map_option e_lastInputSeq (find (\<lambda>p. e_id p = ''me01'') (snapPlayers snapshot0))
       = Some (Some 1)"
    by (simp add: f0)
  show ?thesis
    by (intro conjI) (rule client1_reachable client1_fields pend n0 ack r0 r1 n7 r7)+
qed

subsection \<open>Interpolation\<close>

text \<open>
  C7 (render times older than the buffer). With the snapshots of times 100 and 200
  buffered, the render time 50 is bracketed by no pair and the snapshot nearest to it is
  the one of time 100, where \<open>a\<close> stands at \<open>(20, 40)\<close>. \<open>getRemoteEntityPositions\<close> answers
  from the last snapshot: \<open>a\<close> at \<open>(60, 80)\<close>, and \<open>b\<close>, who is not in the nearest snapshot
  at all.
\<close>

theorem old_render_time_takes_last_snapshot:
  "findBracket 50 [snapA, snapB] = None
   \<and> map (\<lambda>p. (e_id p, e_x p, e_y p)) (snapPlayers snapA) = [(''a'', 20, 40)]
   \<and> map_option (map (\<lambda>kr. (fst kr, r_x (snd kr), r_y (snd kr))))
        (getRemoteEntityPositions 50 [snapA, snapB])
       = Some [(''a'', 60, 80), (''b'', 100, 50)]"
  by (simp add: getRemoteEntityPositions_def snapA_def snapB_def renderedOf_def)

text \<open>
  C8 (an entity of the later snapshot only). Between the same two snapshots, at render
  time 150 (fraction one half), \<open>a\<close> is drawn half way, at \<open>(40, 60)\<close>. \<open>b\<close>, known only from
  the later snapshot, at \<open>(100, 50)\<close>, is not held there: it is drawn at \<open>(50, 25)\<close>, half
  way from the origin, and at render time 100 (fraction zero) at the origin itself.
\<close>

theorem entity_of_later_snapshot_moves_from_origin:
  "findBracket 150 [snapA, snapB] = Some (snapA, snapB)
   \<and> map (\<lambda>p. e_id p) (snapPlayers snapA) = [''a'']
   \<and> map (\<lambda>p. (e_id p, e_x p, e_y p)) (snapPlayers snapB) = [(''a'', 60, 80), (''b'', 100, 50)]
   \<and> map_option (map (\<lambda>kr. (fst kr, r_x (snd kr), r_y (snd kr))))
        (getRemoteEntityPositions 150 [snapA, snapB])
       = Some [(''a'', 40, 60), (''b'', 50, 25)]
   \<and> map_option (map (\<lambda>kr. (fst kr, r_x (snd kr), r_y (snd kr))))
        (getRemoteEntityPositions 100 [snapA, snapB])
       = Some [(''a'', 20, 40), (''b'', 0, 0)]"
  by (simp add: getRemoteEntityPositions_def snapA_def snapB_def renderedOf_def byId_def
      interpolateEntity_def lerp_def Let_def)

subsection \<open>Scores\<close>

lemma scoresMatch_players:
  "scoresMatch s picked \<Longrightarrow> players s' = players s \<Longrightarrow> scoresMatch s' picked"
  by (simp add: scoresMatch_def)

lemma scoresMatch_update:
  assumes "scoresMatch s picked" and "players s' = AList.update k v (players s)"
    and "p_score v = int (collectedBy k picked)"
  shows "scoresMatch s' picked"
  using assms by (auto simp add: scoresMatch_def distinct_update update_conv' split: if_splits)

lemma scoresMatch_delete:
  assumes "scoresMatch s picked" and "players s' = AList.delete k (players s)"
  shows "scoresMatch s' picked"
  using assms by (auto simp add: scoresMatch_def distinct_delete delete_conv' split: if_splits)

lemma collectedBy_unused: "k \<notin> snd ` set picked \<Longrightarrow> collectedBy k picked = 0"
  by (induction picked) (auto simp add: collectedBy_def)

lemma handle_input_players:
  "players (stateOf (handleClientMessage e w (Input mseq mdx mdy mts) s)) = players s
     \<or> (\<exists>pid p sq dx dy. map_of (players s) pid = Some p
           \<and> players (stateOf (handleClientMessage e w (Input mseq mdx mdy mts) s))
               = AList.update pid (acceptInput e sq dx dy mts p) (players s))"
proof (cases "map_of (sockets s) w")
  case None
  then show ?thesis by (simp add: stateOf_simps)
next
  case (Some bound)
  show ?thesis
  proof (cases bound)
    case None
    with Some show ?thesis by (simp add: stateOf_simps)
  next
    case (Some pid)
    note bound = \<open>map_of (sockets s) w = Some bound\<close> [unfolded Some]
    show ?thesis
    proof (cases "pid = []")
      case True
      with bound show ?thesis by (simp add: stateOf_simps)
    next
      case False
      show ?thesis
      proof (cases "map_of (players s) pid")
        case None
        with bound False show ?thesis by (simp add: stateOf_simps)
      next
        case (Some p)
        note pl = this
        show ?thesis
        proof (cases "p_lastInput p")
          case None
          with bound False pl show ?thesis by (simp add: Let_def stateOf_simps)
        next
          case (Some li)
          have st: "stateOf (handleClientMessage e w (Input mseq mdx mdy mts) s) =
               (if orZero mseq \<le> i_seq li then s
                else s\<lparr>players := AList.update pid
                       (acceptInput e (orZero mseq) (max (- 1) (min 1 (orZero mdx)))
                          (max (- 1) (min 1 (orZero mdy))) mts p) (players s)\<rparr>)"
            by (simp only: handle_input_bound [OF bound False pl Some] stateOf_simps)
          show ?thesis unfolding st using pl
            by (cases "orZero mseq \<le> i_seq li") (simp, force)
        qed
      qed
    qed
  qed
qed

lemma handle_join_players:
  "players (stateOf (handleClientMessage e w (Join nm) s)) =
     (if length (players s) \<ge> MAX_PLAYERS then players s
      else AList.update (env_uuid e) (newPlayer e nm) (players s))"
  by (simp add: sendWithLatency_def Let_def stateOf_simps)

lemma handle_scoresMatch:
  assumes "scoresMatch s picked" and "env_uuid e \<notin> snd ` set picked"
  shows "scoresMatch (stateOf (handleClientMessage e w m s)) picked"
proof (cases m)
  case (Join nm)
  show ?thesis
  proof (cases "length (players s) \<ge> MAX_PLAYERS")
    case True
    then have "players (stateOf (handleClientMessage e w m s)) = players s"
      unfolding Join handle_join_players by simp
    with assms(1) show ?thesis by (rule scoresMatch_players)
  next
    case False
    then have "players (stateOf (handleClientMessage e w m s))
                 = AList.update (env_uuid e) (newPlayer e nm) (players s)"
      unfolding Join handle_join_players by simp
    moreover have "p_score (newPlayer e nm) = int (collectedBy (env_uuid e) picked)"
      using collectedBy_unused [OF assms(2)] by (simp add: newPlayer_def)
    ultimately show ?thesis using assms(1) by (auto intro: scoresMatch_update)
  qed
next
  case (Input mseq mdx mdy mts)
  from handle_input_players [of e w mseq mdx mdy mts s]
  show ?thesis unfolding Input
  proof (elim disjE exE conjE)
    assume "players (stateOf (handleClientMessage e w (Input mseq mdx mdy mts) s)) = players s"
    with assms(1) show "scoresMatch (stateOf (handleClientMessage e w (Input mseq mdx mdy mts) s)) picked"
      by (rule scoresMatch_players)
  next
    fix pid p sq dx dy
    assume m: "map_of (players s) pid = Some p"
      and u: "players (stateOf (handleClientMessage e w (Input mseq mdx mdy mts) s))
                = AList.update pid (acceptInput e sq dx dy mts p) (players s)"
    from assms(1) m have "p_score p = int (collectedBy pid picked)" by (simp add: scoresMatch_def)
    then have "p_score (acceptInput e sq dx dy mts p) = int (collectedBy pid picked)"
      by (simp add: acceptInput_def)
    with assms(1) u
    show "scoresMatch (stateOf (handleClientMessage e w (Input mseq mdx mdy mts) s)) picked"
      by (rule scoresMatch_update)
  qed
next
  case (Ping ts)
  then have "players (stateOf (handleClientMessage e w m s)) = players s"
    by (simp add: sendWithLatency_def stateOf_simps)
  with assms(1) show ?thesis by (rule scoresMatch_players)
next
  case Other
  then have "players (stateOf (handleClientMessage e w m s)) = players s"
    by (simp add: stateOf_simps)
  with assms(1) show ?thesis by (rule scoresMatch_players)
qed

lemma deliver_scoresMatch:
  assumes "\<forall>k. env_uuid (envs k) \<notin> snd ` set picked"
  shows "scoresMatch s picked \<Longrightarrow> scoresMatch (deliver envs k items s) picked"
proof (induction items arbitrary: s k)
  case Nil
  then show ?case by simp
next
  case (Cons item items)
  let ?s1 = "case payload item of
          None \<Rightarrow> s
        | Some msg \<Rightarrow> stateOf (handleClientMessage (envs k) (sock item) msg s)"
  have "scoresMatch ?s1 picked"
  proof (cases "payload item")
    case None
    with Cons.prems show ?thesis by simp
  next
    case (Some msg)
    from assms have "env_uuid (envs k) \<notin> snd ` set picked" by simp
    from handle_scoresMatch [OF Cons.prems this, of "sock item" msg] Some show ?thesis
      by (simp del: handleClientMessage.simps)
  qed
  from Cons.IH [OF this] show ?case by (simp del: handleClientMessage.simps)
qed

lemma sweepPlayer_scoresMatch:
  "scoresMatch s picked \<Longrightarrow> scoresMatch (sweepPlayer now kp s) picked"
proof (cases "now - p_lastSeen (snd kp) > 60000")
  case True
  assume a: "scoresMatch s picked"
  from True have "players (sweepPlayer now kp s) = AList.delete (fst kp) (players s)"
    by (simp add: sweepPlayer_def)
  with a show ?thesis by (rule scoresMatch_delete)
next
  case False
  assume "scoresMatch s picked"
  with False show ?thesis by (simp add: sweepPlayer_def)
qed

lemma fold_sweep_scoresMatch:
  "scoresMatch s picked \<Longrightarrow> scoresMatch (fold (sweepPlayer now) kps s) picked"
  by (induction kps arbitrary: s) (simp_all add: sweepPlayer_scoresMatch)

lemma onClose_scoresMatch: "scoresMatch s picked \<Longrightarrow> scoresMatch (onClose w s) picked"
proof -
  assume a: "scoresMatch s picked"
  have "players (onClose w s) = players s
        \<or> (\<exists>i. players (onClose w s) = AList.delete i (players s))"
    by (auto simp add: onClose_def Let_def split: option.splits)
  with a show ?thesis by (auto intro: scoresMatch_players scoresMatch_delete)
qed

lemma applyMovement_keys: "map fst (applyMovement ps) = map fst ps"
  by (induction ps) (auto simp add: applyMovement_def)

lemma applyMovement_lookup: "map_of (applyMovement ps) q = map_option movePlayer (map_of ps q)"
  by (induction ps) (auto simp add: applyMovement_def)

lemma tick_scores:
  assumes "distinct (map fst (players s))"
  shows "distinct (map fst (players (stateOf (gameTick te s))))
     \<and> (\<forall>q p'. map_of (players (stateOf (gameTick te s))) q = Some p' \<longrightarrow>
          (\<exists>p. map_of (players s) q = Some p
             \<and> p_score p' = p_score p + int (collectedBy q (pickedInTick s))))"
proof -
  let ?ps = "applyMovement (players s)"
  obtain ps' cs' pk where r: "stateOf (coinResolution ?ps (coins s)) = (ps', cs', pk)"
    by (cases "stateOf (coinResolution ?ps (coins s))")
  from gameTick_players [of te s] r have pl: "players (stateOf (gameTick te s)) = ps'" by simp
  from r have pk: "pickedInTick s = pk" by (simp add: pickedInTick_def)
  from r have run: "stateOf (resolveCoins (coins s) (?ps, coins s, [])) = (ps', cs', pk)"
    by (simp add: coinResolution_def)
  have d: "distinct (map fst ?ps)" using assms(1) by (simp add: applyMovement_keys)
  from resolveCoins_char [OF d run] obtain got rest where
    "pk = [] @ got"
    "\<forall>q p. map_of ?ps q = Some p \<longrightarrow>
         map_of ps' q = Some (p\<lparr>p_score := p_score p + int (collectedBy q got)\<rparr>)"
    by blast
  then have sc: "\<forall>q p. map_of ?ps q = Some p \<longrightarrow>
         map_of ps' q = Some (p\<lparr>p_score := p_score p + int (collectedBy q pk)\<rparr>)"
    by simp
  from sameButScore_keys [OF resolveCoins_sameButScore [OF run]]
  have keys: "map fst ps' = map fst (players s)" by (simp add: applyMovement_keys)
  have "\<forall>q p'. map_of ps' q = Some p' \<longrightarrow>
          (\<exists>p. map_of (players s) q = Some p \<and> p_score p' = p_score p + int (collectedBy q pk))"
  proof (intro allI impI)
    fix q p'
    assume m: "map_of ps' q = Some p'"
    then have "q \<in> fst ` set ps'" by (metis map_of_eq_None_iff option.distinct(1))
    then have "q \<in> fst ` set (players s)" using keys by (metis set_map)
    then obtain p where p: "map_of (players s) q = Some p"
      by (metis map_of_eq_None_iff not_Some_eq)
    then have "map_of ?ps q = Some (movePlayer p)" by (simp add: applyMovement_lookup)
    with sc m have "p' = (movePlayer p)\<lparr>p_score := p_score (movePlayer p) + int (collectedBy q pk)\<rparr>"
      by simp
    then have "p_score p' = p_score p + int (collectedBy q pk)" by (simp add: movePlayer_score)
    with p show "\<exists>p. map_of (players s) q = Some p \<and> p_score p' = p_score p + int (collectedBy q pk)"
      by blast
  qed
  with keys assms(1) pl pk show ?thesis by simp
qed

lemma tick_scoresMatch:
  assumes "scoresMatch s picked"
  shows "scoresMatch (stateOf (gameTick te s)) (picked @ pickedInTick s)"
proof -
  from assms(1) have d: "distinct (map fst (players s))" by (simp add: scoresMatch_def)
  from tick_scores [OF d, of te] assms(1) show ?thesis
    by (fastforce simp add: scoresMatch_def collectedBy_simps)
qed

lemma step_scoresMatch:
  assumes "scoresMatch s picked" and "freshIds ev s picked" and "step ev s = Inr s'"
  shows "scoresMatch s' (picked @ eventPicks ev s)"
proof (cases ev)
  case (Connection rnd now w)
  with assms(3) have "players s' = players s" by (auto simp add: onConnection_def sendWithLatency_def)
  with assms(1) Connection show ?thesis by (simp add: scoresMatch_players)
next
  case (Message rnd now w raw)
  with assms(3) have "players s' = players s"
    by (auto simp add: onMessage_def sortQueues_def queueIncoming_def)
  with assms(1) Message show ?thesis by (simp add: scoresMatch_players)
next
  case (Close w)
  with assms(1,3) show ?thesis by (auto simp add: onClose_scoresMatch)
next
  case (ProcessIncoming envs now)
  with assms(2) have fresh: "\<forall>k. env_uuid (envs k) \<notin> snd ` set picked" by simp
  obtain out rest where sr: "shiftReady now (incomingQueue s) = (out, rest)"
    by (cases "shiftReady now (incomingQueue s)")
  have "scoresMatch (s\<lparr>incomingQueue := rest\<rparr>) picked"
    using assms(1) by (simp add: scoresMatch_def)
  from deliver_scoresMatch [OF fresh this, of 0 out] sr ProcessIncoming assms(3)
  show ?thesis by (auto simp add: processIncomingQueue_def)
next
  case (FlushOutgoing now isOpen)
  with assms(3) have "players s' = players s"
    by (auto simp add: flushOutgoing_def split: prod.splits)
  with assms(1) FlushOutgoing show ?thesis by (simp add: scoresMatch_players)
next
  case (Tick te)
  with assms(3) have "stateOf (gameTick te s) = s'" by (simp add: stateOf_simps)
  with tick_scoresMatch [OF assms(1), of te] Tick show ?thesis by simp
next
  case (Housekeeping now)
  with assms(1,3) show ?thesis by (auto simp add: housekeeping_def fold_sweep_scoresMatch)
next
  case SortQueues
  with assms(3) have "players s' = players s" by (auto simp add: sortQueues_def)
  with assms(1) SortQueues show ?thesis by (simp add: scoresMatch_players)
next
  case (CliSpawn uuid rx ry)
  with assms(3) have "players s' = players s" by (auto simp add: maybeSpawnCoin_frame)
  with assms(1) CliSpawn show ?thesis by (simp add: scoresMatch_players)
qed

lemma history_scoresMatch: "history s picked \<Longrightarrow> scoresMatch s picked"
proof (induction rule: history.induct)
  case (history_init now)
  show ?case by (simp add: scoresMatch_def initialServer_def)
next
  case (history_step s picked ev s')
  then show ?case by (simp add: step_scoresMatch)
qed

text \<open>
  C10. A player is created with score 0. In every state the server reaches (identifiers
  from \<open>uuidv4()\<close> being fresh), the score of every player in the registry is the number of
  entries \<open>pickedCoins\<close> has held for that player over all ticks so far, hence not negative.
  Over any one callback, a player in the registry before and after has the old score plus
  the number of coins that callback's tick awarded to that player: nothing for a callback
  other than the tick, and never a decrease.
\<close>

theorem score_counts_collected_coins:
  "p_score (newPlayer e nm) = 0
   \<and> (history s picked \<and> map_of (players s) pid = Some p \<longrightarrow>
        p_score p = int (collectedBy pid picked) \<and> 0 \<le> p_score p)
   \<and> (history s picked \<and> freshIds ev s picked \<and> step ev s = Inr s'
        \<and> map_of (players s) pid = Some p \<and> map_of (players s') pid = Some p' \<longrightarrow>
          p_score p' = p_score p + int (collectedBy pid (eventPicks ev s))
          \<and> p_score p \<le> p_score p'
          \<and> ((\<forall>te. ev \<noteq> Tick te) \<longrightarrow> p_score p' = p_score p))"
proof (intro conjI impI)
  show "p_score (newPlayer e nm) = 0" by (simp add: newPlayer_def)
next
  assume "history s picked \<and> map_of (players s) pid = Some p"
  with history_scoresMatch [of s picked]
  show "p_score p = int (collectedBy pid picked)" by (simp add: scoresMatch_def)
  then show "0 \<le> p_score p" by simp
next
  assume h: "history s picked \<and> freshIds ev s picked \<and> step ev s = Inr s'
        \<and> map_of (players s) pid = Some p \<and> map_of (players s') pid = Some p'"
  then have before: "scoresMatch s picked" by (simp add: history_scoresMatch)
  with h have after: "scoresMatch s' (picked @ eventPicks ev s)" by (simp add: step_scoresMatch)
  from before h have "p_score p = int (collectedBy pid picked)" by (simp add: scoresMatch_def)
  moreover from after h have "p_score p' = int (collectedBy pid (picked @ eventPicks ev s))"
    by (simp add: scoresMatch_def)
  ultimately show inc: "p_score p' = p_score p + int (collectedBy pid (eventPicks ev s))"
    by (simp add: collectedBy_simps)
  then show "p_score p \<le> p_score p'" by simp
  show "p_score p' = p_score p" if "\<forall>te. ev \<noteq> Tick te"
    using inc that by (cases ev) (simp_all add: collectedBy_simps)
qed

lemma joinedServer_history: "history joinedServer []"
proof -
  let ?h1 = "onConnection (1 / 2) 0 1 (initialServer 0)"
  let ?h2 = "onMessage (1 / 2) 0 1 (Some (Join (Some (JStr ''Ann'')))) ?h1"
  have q: "incomingQueue ?h2 = [\<lparr>deliverAt = 200, sock = 1, payload = Some (Join (Some (JStr ''Ann'')))\<rparr>]"
    by (simp add: onMessage_def sortQueues_def queueIncoming_def onConnection_def
        sendWithLatency_def initialServer_def latencyJitter_def ONE_WAY_LATENCY_def)
  have restored: "?h2\<lparr>incomingQueue := []\<rparr> = ?h1"
    by (simp add: onMessage_def sortQueues_def queueIncoming_def onConnection_def
        sendWithLatency_def initialServer_def)
  have p: "processIncomingQueue (\<lambda>k. env0) 1000 ?h2 = joinedServer"
    unfolding processIncomingQueue_def q using restored
    by (simp add: joinedServer_def del: handleClientMessage.simps)
  have "history (initialServer 0) []" by (rule history_init)
  from history_step [OF this, of "Connection (1 / 2) 0 1" ?h1]
  have "history ?h1 []" by simp
  from history_step [OF this, of "Message (1 / 2) 0 1 (Some (Join (Some (JStr ''Ann''))))" ?h2]
  have h2: "history ?h2 []" by simp
  have "players ?h2 = []"
    by (simp add: onMessage_def sortQueues_def queueIncoming_def onConnection_def
        sendWithLatency_def initialServer_def)
  then have "freshIds (ProcessIncoming (\<lambda>k. env0) 1000) ?h2 []" by simp
  from history_step [OF h2 this, of joinedServer] p
  show ?thesis by simp
qed

lemma tickDisplacement_idle:
  "tickDisplacement (Some \<lparr>i_seq = q, i_dx = Some 0, i_dy = Some 0, i_ts = t\<rparr>) = (0, 0)"
  by (simp add: tickDisplacement_eq orZero_simps normalizeIntent_def hypot_zero Let_def)

theorem score_counts_collected_coins_witness:
  "history spawnedServer []
   \<and> map_option p_score (map_of (players spawnedServer) ''a1b2c3'') = Some 0
   \<and> (\<exists>s'. step (Tick tickEnv0) spawnedServer = Inr s'
         \<and> eventPicks (Tick tickEnv0) spawnedServer = [(''c0ffee'', ''a1b2c3'')]
         \<and> history s' [(''c0ffee'', ''a1b2c3'')]
         \<and> map_option p_score (map_of (players s') ''a1b2c3'') = Some 1
         \<and> (\<exists>s''. step (Housekeeping 4000) s' = Inr s''
               \<and> map_option p_score (map_of (players s'') ''a1b2c3'') = Some 1))"
proof -
  let ?ann = "newPlayer env0 (Some (JStr ''Ann''))"
  let ?coin = "\<lparr>c_id = ''c0ffee'', c_x = 400, c_y = 300\<rparr>"
  have ps: "players spawnedServer = [(''a1b2c3'', ?ann)]"
    by (simp add: spawnedServer_def maybeSpawnCoin_frame joinedServer_eq)
  have cs: "coins spawnedServer = [(''c0ffee'', ?coin)]"
    by (simp add: spawnedServer_def maybeSpawnCoin_def joinedServer_eq MAX_COINS_def
        MAP_W_def MAP_H_def)
  have ann: "p_x ?ann = 400" "p_y ?ann = 300" "p_score ?ann = 0"
    "p_lastInput ?ann = Some \<lparr>i_seq = 0, i_dx = Some 0, i_dy = Some 0, i_ts = None\<rparr>"
    by (simp_all add: newPlayer_def env0_def MAP_W_def MAP_H_def)
  have mv: "movePlayer ?ann = ?ann"
    by (simp add: movePlayer_def ann tickDisplacement_idle MAP_W_def MAP_H_def)
  have inr: "inRange ?coin ?ann" by (simp add: inRange_def ann PICKUP_RADIUS_def)
  have h0: "history spawnedServer []"
    using history_step [OF joinedServer_history, of "CliSpawn ''c0ffee'' (1 / 2) (1 / 2)" spawnedServer]
    by (simp add: spawnedServer_def)
  have m0: "map_of (players spawnedServer) ''a1b2c3'' = Some ?ann" by (simp add: ps)
  have res: "coinResolution (applyMovement (players spawnedServer)) (coins spawnedServer)
      = Inr ([(''a1b2c3'', ?ann\<lparr>p_score := p_score ?ann + 1\<rparr>)], [], [(''c0ffee'', ''a1b2c3'')])"
    by (simp add: ps cs applyMovement_def mv coinResolution_def inr newPlayer_name)
  then have picks: "eventPicks (Tick tickEnv0) spawnedServer = [(''c0ffee'', ''a1b2c3'')]"
    by (simp add: pickedInTick_def stateOf_simps)
  have "\<forall>kp \<in> set (players spawnedServer). p_lastInput (snd kp) \<noteq> None" by (simp add: ps ann)
  moreover have "\<forall>kp \<in> set (players spawnedServer). canToString (p_name (snd kp))"
    by (simp add: ps newPlayer_name)
  ultimately obtain s' where g: "gameTick tickEnv0 spawnedServer = Inr s'"
    using gameTick_total [of spawnedServer tickEnv0] by blast
  then have st: "step (Tick tickEnv0) spawnedServer = Inr s'" by simp
  have h1: "history s' [(''c0ffee'', ''a1b2c3'')]"
    using history_step [OF h0 _ st] picks by simp
  from gameTick_players [of tickEnv0 spawnedServer] g res
  have pl1: "players s' = [(''a1b2c3'', ?ann\<lparr>p_score := p_score ?ann + 1\<rparr>)]"
    by (simp add: stateOf_simps)
  then have m1: "map_of (players s') ''a1b2c3'' = Some (?ann\<lparr>p_score := p_score ?ann + 1\<rparr>)"
    by simp
  obtain s'' where hk: "step (Housekeeping 4000) s' = Inr s''" by simp
  have "players s'' = players s'"
    using hk pl1
    by (auto simp add: housekeeping_def sweepPlayer_def newPlayer_def env0_def)
  with m1 have m2: "map_of (players s'') ''a1b2c3'' = Some (?ann\<lparr>p_score := p_score ?ann + 1\<rparr>)"
    by simp
  note t = score_counts_collected_coins
  from t [where s = spawnedServer and picked = "[]" and pid = "''a1b2c3''" and p = ?ann,
      THEN conjunct2, THEN conjunct1] h0 m0
  have a: "map_option p_score (map_of (players spawnedServer) ''a1b2c3'') = Some 0"
    by (simp add: collectedBy_simps)
  from t [where s = s' and picked = "[(''c0ffee'', ''a1b2c3'')]" and pid = "''a1b2c3''"
      and p = "?ann\<lparr>p_score := p_score ?ann + 1\<rparr>", THEN conjunct2, THEN conjunct1] h1 m1
  have b: "map_option p_score (map_of (players s') ''a1b2c3'') = Some 1"
    by (simp add: collectedBy_simps)
  from t [where s = s' and picked = "[(''c0ffee'', ''a1b2c3'')]" and pid = "''a1b2c3''"
      and ev = "Housekeeping 4000" and s' = s''
      and p = "?ann\<lparr>p_score := p_score ?ann + 1\<rparr>"
      and p' = "?ann\<lparr>p_score := p_score ?ann + 1\<rparr>", THEN conjunct2, THEN conjunct2]
    h1 hk m1 m2 b
  have c: "map_option p_score (map_of (players s'') ''a1b2c3'') = Some 1"
    by (simp add: collectedBy_simps)
  from hk c have d: "\<exists>s''. step (Housekeeping 4000) s' = Inr s''
               \<and> map_option p_score (map_of (players s'') ''a1b2c3'') = Some 1" by blast
  from h0 a st picks h1 b d show ?thesis by blast
qed

subsection \<open>Joining\<close>

lemma oddJoinQueued_fields:
  "players oddJoinQueued = [(''a1b2c3'', newPlayer env0 (Some (JStr ''Ann'')))]"
  "coins oddJoinQueued = []"
  "sockets oddJoinQueued = [(1, Some ''a1b2c3''), (2, None)]"
  "incomingQueue oddJoinQueued = [\<lparr>deliverAt = 2700, sock = 2, payload = Some oddJoin\<rparr>]"
  "outgoingQueue oddJoinQueued =
     [\<lparr>deliverAt = 200, sock = 1, payload = Welcome 0\<rparr>,
      \<lparr>deliverAt = 1200, sock = 1,
       payload = JoinAck ''a1b2c3'' 1000 MAP_W MAP_H
                   [playerView (newPlayer env0 (Some (JStr ''Ann'')))] []\<rparr>,
      \<lparr>deliverAt = 2200, sock = 2, payload = Welcome 2000\<rparr>]"
  by (simp_all add: oddJoinQueued_def onMessage_def sortQueues_def queueIncoming_def
      onConnection_def sendWithLatency_def latencyJitter_def ONE_WAY_LATENCY_def joinedServer_eq)

lemma oddJoin_name:
  "p_name (newPlayer e (Some (JObj [(''toString'', JNum 1)]))) = JObj [(''toString'', JNum 1)]"
  by (simp add: newPlayer_name)

lemma oddJoin_thrown:
  "handleClientMessage env1 2 oddJoin (oddJoinQueued\<lparr>incomingQueue := []\<rparr>) =
     Inl (TypeError,
          oddJoinQueued
            \<lparr>incomingQueue := [],
             players := [(''a1b2c3'', newPlayer env0 (Some (JStr ''Ann''))),
                         (''d4e5f6'', newPlayer env1 (Some (JObj [(''toString'', JNum 1)])))],
             sockets := [(1, Some ''a1b2c3''), (2, Some ''d4e5f6'')]\<rparr>)"
proof -
  have u: "env_uuid env1 = ''d4e5f6''" by (simp add: env1_def)
  show ?thesis
    by (simp add: oddJoin_def oddJoinQueued_fields MAX_PLAYERS_def Let_def oddJoin_name DEBUG_def u)
qed

lemma oddJoined_eq:
  "oddJoined =
     oddJoinQueued
       \<lparr>incomingQueue := [],
        players := [(''a1b2c3'', newPlayer env0 (Some (JStr ''Ann''))),
                    (''d4e5f6'', newPlayer env1 (Some (JObj [(''toString'', JNum 1)])))],
        sockets := [(1, Some ''a1b2c3''), (2, Some ''d4e5f6'')]\<rparr>"
  unfolding oddJoined_def processIncomingQueue_def
  by (simp add: oddJoinQueued_fields oddJoin_thrown stateOf_simps del: handleClientMessage.simps)

lemma oddJoinQueued_history: "history oddJoinQueued []"
proof -
  let ?h1 = "onConnection (1 / 2) 2000 2 joinedServer"
  from history_step [OF joinedServer_history, of "Connection (1 / 2) 2000 2" ?h1]
  have "history ?h1 []" by simp
  from history_step [OF this, of "Message (1 / 2) 2500 2 (Some oddJoin)" oddJoinQueued]
  show ?thesis by (simp add: oddJoinQueued_def)
qed

lemma oddJoined_history: "history oddJoined []"
proof -
  have "env_uuid env1 = ''d4e5f6''" by (simp add: env1_def)
  then have "freshIds (ProcessIncoming (\<lambda>k. env1) 3000) oddJoinQueued []"
    by (simp add: oddJoinQueued_fields)
  from history_step [OF oddJoinQueued_history this, of oddJoined]
  show ?thesis by (simp add: oddJoined_def)
qed

text \<open>
  C9 (a name that cannot be printed). One player has joined, of eight allowed. A second
  socket connects and sends \<open>{"type":"join","name":{"toString":1}}\<close>. When the message is
  delivered, the handler stores the player under the name given and binds the socket;
  then the \<open>[join]\<close> log converts the name to a string and throws, \<open>processIncomingQueue\<close>
  catches the exception, and no \<open>join_ack\<close> is queued: all the server ever queues for
  socket 2 is its \<open>welcome\<close>. The player is in the registry all the same.
\<close>

theorem join_under_unprintable_name_is_not_acked:
  "history oddJoinQueued []
   \<and> length (players oddJoinQueued) = 1 \<and> MAX_PLAYERS = 8
   \<and> map (\<lambda>item. (sock item, payload item)) (incomingQueue oddJoinQueued) = [(2, Some oddJoin)]
   \<and> (\<exists>s1. handleClientMessage env1 2 oddJoin (oddJoinQueued\<lparr>incomingQueue := []\<rparr>)
              = Inl (TypeError, s1))
   \<and> step (ProcessIncoming (\<lambda>k. env1) 3000) oddJoinQueued = Inr oddJoined
   \<and> history oddJoined []
   \<and> map fst (players oddJoined) = [''a1b2c3'', ''d4e5f6'']
   \<and> sockets oddJoined = [(1, Some ''a1b2c3''), (2, Some ''d4e5f6'')]
   \<and> incomingQueue oddJoined = []
   \<and> outgoingQueue oddJoined = outgoingQueue oddJoinQueued
   \<and> map payload (filter (\<lambda>item. sock item = 2) (outgoingQueue oddJoined)) = [Welcome 2000]"
proof -
  have a: "length (players oddJoinQueued) = 1" "MAX_PLAYERS = 8"
    "map (\<lambda>item. (sock item, payload item)) (incomingQueue oddJoinQueued) = [(2, Some oddJoin)]"
    by (simp_all add: oddJoinQueued_fields MAX_PLAYERS_def)
  from oddJoin_thrown
  have b: "\<exists>s1. handleClientMessage env1 2 oddJoin (oddJoinQueued\<lparr>incomingQueue := []\<rparr>)
              = Inl (TypeError, s1)" by blast
  have c: "step (ProcessIncoming (\<lambda>k. env1) 3000) oddJoinQueued = Inr oddJoined"
    by (simp add: oddJoined_def)
  have d: "map fst (players oddJoined) = [''a1b2c3'', ''d4e5f6'']"
    "sockets oddJoined = [(1, Some ''a1b2c3''), (2, Some ''d4e5f6'')]"
    "incomingQueue oddJoined = []"
    "outgoingQueue oddJoined = outgoingQueue oddJoinQueued"
    by (simp_all add: oddJoined_eq)
  have e: "map payload (filter (\<lambda>item. sock item = 2) (outgoingQueue oddJoined)) = [Welcome 2000]"
    by (simp add: d oddJoinQueued_fields)
  show ?thesis
    by (intro conjI) (rule oddJoinQueued_history a b c oddJoined_history d e)+
qed

text \<open>
  Joins, in general. A join handled while the registry holds \<open>MAX_PLAYERS\<close> players or more
  queues one \<open>join_reject\<close> packet with reason \<open>server_full\<close> for the sender and changes
  nothing else: no player is created. A join handled below capacity, with a fresh
  identifier, appends exactly one player under that identifier and binds the socket to
  it; if the player's name can be converted to a string, one \<open>join_ack\<close> packet carrying
  the identifier is queued, and if not, the handler throws and nothing is queued.
\<close>

theorem join_rejected_at_capacity_else_stored:
  "(length (players s) \<ge> MAX_PLAYERS \<longrightarrow>
      (\<exists>s'. handleClientMessage e w (Join nm) s = Inr s'
         \<and> players s' = players s \<and> sockets s' = sockets s \<and> coins s' = coins s
         \<and> incomingQueue s' = incomingQueue s
         \<and> outgoingQueue s' = outgoingQueue s @
              [\<lparr>deliverAt = env_now e + ONE_WAY_LATENCY + latencyJitter (env_jitter e), sock = w,
                payload = JoinReject ''server_full''\<rparr>]))
   \<and> (length (players s) < MAX_PLAYERS \<and> env_uuid e \<notin> fst ` set (players s) \<longrightarrow>
        players (stateOf (handleClientMessage e w (Join nm) s))
          = players s @ [(env_uuid e, newPlayer e nm)]
        \<and> map_of (sockets (stateOf (handleClientMessage e w (Join nm) s))) w
            = Some (Some (env_uuid e))
        \<and> coins (stateOf (handleClientMessage e w (Join nm) s)) = coins s
        \<and> incomingQueue (stateOf (handleClientMessage e w (Join nm) s)) = incomingQueue s)
   \<and> (length (players s) < MAX_PLAYERS \<and> canToString (p_name (newPlayer e nm)) \<longrightarrow>
      (\<exists>s' pkt. handleClientMessage e w (Join nm) s = Inr s'
         \<and> outgoingQueue s' = outgoingQueue s @
              [\<lparr>deliverAt = env_now e + ONE_WAY_LATENCY + latencyJitter (env_jitter e), sock = w,
                payload = pkt\<rparr>]
         \<and> pkt = JoinAck (env_uuid e) (env_now e) MAP_W MAP_H
                   (map (playerView \<circ> snd) (players s')) (map snd (coins s))))
   \<and> (length (players s) < MAX_PLAYERS \<and> \<not> canToString (p_name (newPlayer e nm)) \<longrightarrow>
      (\<exists>s'. handleClientMessage e w (Join nm) s = Inl (TypeError, s')
         \<and> outgoingQueue s' = outgoingQueue s))"
proof (intro conjI impI)
  assume "length (players s) \<ge> MAX_PLAYERS"
  then show "\<exists>s'. handleClientMessage e w (Join nm) s = Inr s'
         \<and> players s' = players s \<and> sockets s' = sockets s \<and> coins s' = coins s
         \<and> incomingQueue s' = incomingQueue s
         \<and> outgoingQueue s' = outgoingQueue s @
              [\<lparr>deliverAt = env_now e + ONE_WAY_LATENCY + latencyJitter (env_jitter e), sock = w,
                payload = JoinReject ''server_full''\<rparr>]"
    by (simp add: sendWithLatency_def)
next
  assume h: "length (players s) < MAX_PLAYERS \<and> env_uuid e \<notin> fst ` set (players s)"
  then have app: "AList.update (env_uuid e) (newPlayer e nm) (players s)
                    = players s @ [(env_uuid e, newPlayer e nm)]"
    by (simp add: update_fresh_appends)
  from h have lt: "\<not> MAX_PLAYERS \<le> length (players s)" by simp
  show "players (stateOf (handleClientMessage e w (Join nm) s))
          = players s @ [(env_uuid e, newPlayer e nm)]"
    using lt app by (simp add: handle_join_players del: handleClientMessage.simps)
  show "map_of (sockets (stateOf (handleClientMessage e w (Join nm) s))) w
            = Some (Some (env_uuid e))"
    using lt by (simp add: sendWithLatency_def Let_def update_conv' stateOf_simps)
  show "coins (stateOf (handleClientMessage e w (Join nm) s)) = coins s"
    using lt by (simp add: sendWithLatency_def Let_def stateOf_simps)
  show "incomingQueue (stateOf (handleClientMessage e w (Join nm) s)) = incomingQueue s"
    by (simp add: sendWithLatency_def Let_def stateOf_simps)
next
  assume h: "length (players s) < MAX_PLAYERS \<and> canToString (p_name (newPlayer e nm))"
  then have lt: "\<not> MAX_PLAYERS \<le> length (players s)" by simp
  show "\<exists>s' pkt. handleClientMessage e w (Join nm) s = Inr s'
         \<and> outgoingQueue s' = outgoingQueue s @
              [\<lparr>deliverAt = env_now e + ONE_WAY_LATENCY + latencyJitter (env_jitter e), sock = w,
                payload = pkt\<rparr>]
         \<and> pkt = JoinAck (env_uuid e) (env_now e) MAP_W MAP_H
                   (map (playerView \<circ> snd) (players s')) (map snd (coins s))"
    using lt h by (simp add: sendWithLatency_def Let_def)
next
  assume h: "length (players s) < MAX_PLAYERS \<and> \<not> canToString (p_name (newPlayer e nm))"
  then have lt: "\<not> MAX_PLAYERS \<le> length (players s)" by simp
  show "\<exists>s'. handleClientMessage e w (Join nm) s = Inl (TypeError, s')
         \<and> outgoingQueue s' = outgoingQueue s"
    using lt h by (simp add: Let_def DEBUG_def)
qed

theorem join_rejected_at_capacity_else_stored_witness:
  "length (players fullServer) = 8 \<and> MAX_PLAYERS = 8
   \<and> (\<exists>s'. handleClientMessage env1 2 (Join (Some (JStr ''Bob''))) fullServer = Inr s'
         \<and> players s' = players fullServer
         \<and> outgoingQueue s' = outgoingQueue fullServer @
              [\<lparr>deliverAt = 3200, sock = 2, payload = JoinReject ''server_full''\<rparr>])
   \<and> map fst (players joinedServer) = [''a1b2c3'']
   \<and> (\<exists>s'. handleClientMessage env1 2 (Join (Some (JStr ''Bob''))) joinedServer = Inr s'
         \<and> map fst (players s') = [''a1b2c3'', ''d4e5f6'']
         \<and> map (p_name \<circ> snd) (players s') = [JStr ''Ann'', JStr ''Bob'']
         \<and> map_of (sockets s') 2 = Some (Some ''d4e5f6'')
         \<and> map deliverAt (outgoingQueue s') = [200, 1200, 3200])
   \<and> (\<exists>s'. handleClientMessage env1 2 oddJoin joinedServer = Inl (TypeError, s')
         \<and> map fst (players s') = [''a1b2c3'', ''d4e5f6'']
         \<and> map deliverAt (outgoingQueue s') = [200, 1200])"
proof -
  have n: "length (players fullServer) = 8" by (simp add: fullServer_def)
  have m: "MAX_PLAYERS = 8" by (simp add: MAX_PLAYERS_def)
  have j: "latencyJitter (env_jitter env1) = 0" "env_now env1 = 3000" "env_uuid env1 = ''d4e5f6''"
    by (simp_all add: env1_def latencyJitter_def)
  have k: "map fst (players joinedServer) = [''a1b2c3'']" by (simp add: joinedServer_eq)
  note t = join_rejected_at_capacity_else_stored [where e = env1 and w = 2]
  from t [where s = fullServer and nm = "Some (JStr ''Bob'')", THEN conjunct1] n m
  have a: "\<exists>s'. handleClientMessage env1 2 (Join (Some (JStr ''Bob''))) fullServer = Inr s'
         \<and> players s' = players fullServer
         \<and> outgoingQueue s' = outgoingQueue fullServer @
              [\<lparr>deliverAt = 3200, sock = 2, payload = JoinReject ''server_full''\<rparr>]"
    by (auto simp add: j ONE_WAY_LATENCY_def simp del: handleClientMessage.simps)
  have fresh: "length (players joinedServer) < MAX_PLAYERS
      \<and> env_uuid env1 \<notin> fst ` set (players joinedServer)"
    by (simp add: joinedServer_eq m j)
  have bob: "length (players joinedServer) < MAX_PLAYERS
      \<and> canToString (p_name (newPlayer env1 (Some (JStr ''Bob''))))"
    by (simp add: joinedServer_eq m newPlayer_name)
  have odd: "length (players joinedServer) < MAX_PLAYERS
      \<and> \<not> canToString (p_name (newPlayer env1 (Some (JObj [(''toString'', JNum 1)]))))"
    by (simp add: joinedServer_eq m newPlayer_name)
  from t [where s = joinedServer and nm = "Some (JStr ''Bob'')", THEN conjunct2, THEN conjunct2,
      THEN conjunct1, rule_format, OF bob]
  obtain s' where s': "handleClientMessage env1 2 (Join (Some (JStr ''Bob''))) joinedServer = Inr s'"
    "map deliverAt (outgoingQueue s') = map deliverAt (outgoingQueue joinedServer) @
        [env_now env1 + ONE_WAY_LATENCY + latencyJitter (env_jitter env1)]"
    by (auto simp del: handleClientMessage.simps)
  from t [where s = joinedServer and nm = "Some (JStr ''Bob'')", THEN conjunct2, THEN conjunct1,
      rule_format, OF fresh] s'(1)
  have s'': "players s' = players joinedServer @ [(env_uuid env1, newPlayer env1 (Some (JStr ''Bob'')))]"
    "map_of (sockets s') 2 = Some (Some (env_uuid env1))"
    by (simp_all add: stateOf_simps del: handleClientMessage.simps)
  have b: "\<exists>s'. handleClientMessage env1 2 (Join (Some (JStr ''Bob''))) joinedServer = Inr s'
         \<and> map fst (players s') = [''a1b2c3'', ''d4e5f6'']
         \<and> map (p_name \<circ> snd) (players s') = [JStr ''Ann'', JStr ''Bob'']
         \<and> map_of (sockets s') 2 = Some (Some ''d4e5f6'')
         \<and> map deliverAt (outgoingQueue s') = [200, 1200, 3200]"
    using s' s'' by (intro exI [of _ s'])
      (simp add: j joinedServer_eq newPlayer_name ONE_WAY_LATENCY_def del: handleClientMessage.simps)
  from t [where s = joinedServer and nm = "Some (JObj [(''toString'', JNum 1)])", THEN conjunct2,
      THEN conjunct2, THEN conjunct2, rule_format, OF odd]
  obtain s3 where s3: "handleClientMessage env1 2 oddJoin joinedServer = Inl (TypeError, s3)"
    "outgoingQueue s3 = outgoingQueue joinedServer"
    by (auto simp add: oddJoin_def simp del: handleClientMessage.simps)
  from t [where s = joinedServer and nm = "Some (JObj [(''toString'', JNum 1)])", THEN conjunct2,
      THEN conjunct1, rule_format, OF fresh] s3(1)
  have "players s3 = players joinedServer
          @ [(env_uuid env1, newPlayer env1 (Some (JObj [(''toString'', JNum 1)])))]"
    by (simp add: oddJoin_def stateOf_simps del: handleClientMessage.simps)
  with s3 have c: "\<exists>s'. handleClientMessage env1 2 oddJoin joinedServer = Inl (TypeError, s')
         \<and> map fst (players s') = [''a1b2c3'', ''d4e5f6'']
         \<and> map deliverAt (outgoingQueue s') = [200, 1200]"
    by (intro exI [of _ s3]) (simp add: j joinedServer_eq del: handleClientMessage.simps)
  from n m a k b c show ?thesis by (intro conjI)
qed

subsection \<open>Further properties of the server\<close>

lemma set_update_subset: "set (AList.update k v al) \<subseteq> insert (k, v) (set al)"
  by (induction al) auto

lemma set_delete_subset: "set (AList.delete k al) \<subseteq> set al"
  by (induction al) auto

lemma handle_intents:
  assumes "\<forall>kp \<in> set (players s). p_lastInput (snd kp) \<noteq> None"
  shows "\<forall>kp \<in> set (players (stateOf (handleClientMessage e w m s))). p_lastInput (snd kp) \<noteq> None"
proof (cases m)
  case (Join nm)
  have "set (players (stateOf (handleClientMessage e w m s)))
          \<subseteq> insert (env_uuid e, newPlayer e nm) (set (players s))"
    unfolding Join handle_join_players
    using set_update_subset [of "env_uuid e" "newPlayer e nm" "players s"] by auto
  moreover have "p_lastInput (newPlayer e nm) \<noteq> None" by (simp add: newPlayer_def)
  ultimately show ?thesis using assms(1) by fastforce
next
  case (Input mseq mdx mdy mts)
  from handle_input_players [of e w mseq mdx mdy mts s]
  show ?thesis unfolding Input
  proof (elim disjE exE conjE)
    assume "players (stateOf (handleClientMessage e w (Input mseq mdx mdy mts) s)) = players s"
    with assms(1)
    show "\<forall>kp \<in> set (players (stateOf (handleClientMessage e w (Input mseq mdx mdy mts) s))).
            p_lastInput (snd kp) \<noteq> None"
      by simp
  next
    fix pid p sq dx dy
    assume u: "players (stateOf (handleClientMessage e w (Input mseq mdx mdy mts) s))
                 = AList.update pid (acceptInput e sq dx dy mts p) (players s)"
    with set_update_subset [of pid "acceptInput e sq dx dy mts p" "players s"]
    have "set (players (stateOf (handleClientMessage e w (Input mseq mdx mdy mts) s)))
            \<subseteq> insert (pid, acceptInput e sq dx dy mts p) (set (players s))" by simp
    moreover have "p_lastInput (acceptInput e sq dx dy mts p) \<noteq> None" by (simp add: acceptInput_def)
    ultimately
    show "\<forall>kp \<in> set (players (stateOf (handleClientMessage e w (Input mseq mdx mdy mts) s))).
            p_lastInput (snd kp) \<noteq> None"
      using assms(1) by fastforce
  qed
next
  case (Ping ts)
  then have "players (stateOf (handleClientMessage e w m s)) = players s"
    by (simp add: sendWithLatency_def stateOf_simps)
  with assms(1) show ?thesis by simp
next
  case Other
  then have "players (stateOf (handleClientMessage e w m s)) = players s"
    by (simp add: stateOf_simps)
  with assms(1) show ?thesis by simp
qed

lemma handle_incomingQueue:
  "incomingQueue (stateOf (handleClientMessage e w m s)) = incomingQueue s"
proof (cases m)
  case (Input mseq mdx mdy mts)
  show ?thesis unfolding Input
    by (simp add: Let_def stateOf_simps split: option.splits)
qed (simp_all add: sendWithLatency_def Let_def stateOf_simps)

lemma deliver_invariants:
  "(\<forall>kp \<in> set (players s). p_lastInput (snd kp) \<noteq> None) \<Longrightarrow>
   (\<forall>kp \<in> set (players (deliver envs k items s)). p_lastInput (snd kp) \<noteq> None)
   \<and> incomingQueue (deliver envs k items s) = incomingQueue s"
proof (induction items arbitrary: s k)
  case Nil
  then show ?case by simp
next
  case (Cons item items)
  let ?s1 = "case payload item of
          None \<Rightarrow> s
        | Some msg \<Rightarrow> stateOf (handleClientMessage (envs k) (sock item) msg s)"
  have "(\<forall>kp \<in> set (players ?s1). p_lastInput (snd kp) \<noteq> None)
        \<and> incomingQueue ?s1 = incomingQueue s"
  proof (cases "payload item")
    case None
    with Cons.prems show ?thesis by simp
  next
    case (Some msg)
    from handle_intents [OF Cons.prems, of "envs k" "sock item" msg]
      handle_incomingQueue [of "envs k" "sock item" msg s] Some
    show ?thesis by (simp del: handleClientMessage.simps)
  qed
  with Cons.IH [of ?s1 "Suc k"] show ?case by (simp del: handleClientMessage.simps)
qed

lemma sweep_invariants:
  "set (players (fold (sweepPlayer now) kps s)) \<subseteq> set (players s)
   \<and> incomingQueue (fold (sweepPlayer now) kps s) = incomingQueue s"
proof (induction kps arbitrary: s)
  case Nil
  show ?case by simp
next
  case (Cons kp kps)
  have "set (players (sweepPlayer now kp s)) \<subseteq> set (players s)
        \<and> incomingQueue (sweepPlayer now kp s) = incomingQueue s"
    using set_delete_subset [of "fst kp" "players s"] by (simp add: sweepPlayer_def)
  with Cons.IH [of "sweepPlayer now kp s"] show ?case by auto
qed

lemma onClose_invariants:
  "set (players (onClose w s)) \<subseteq> set (players s) \<and> incomingQueue (onClose w s) = incomingQueue s"
  using set_delete_subset [of _ "players s"]
  by (auto simp add: onClose_def Let_def split: option.splits)

lemma step_invariants:
  assumes "\<forall>kp \<in> set (players s). p_lastInput (snd kp) \<noteq> None"
    and "sorted (map deliverAt (incomingQueue s))"
    and "step ev s = Inr s'"
  shows "(\<forall>kp \<in> set (players s'). p_lastInput (snd kp) \<noteq> None)
     \<and> sorted (map deliverAt (incomingQueue s'))"
proof (cases ev)
  case (Connection rnd now w)
  with assms show ?thesis by (auto simp add: onConnection_def sendWithLatency_def)
next
  case (Message rnd now w raw)
  with assms(3) have "players s' = players s"
    "incomingQueue s' = sort_key deliverAt (incomingQueue (queueIncoming rnd now w raw s))"
    by (auto simp add: onMessage_def sortQueues_def queueIncoming_def)
  with assms(1) show ?thesis by (simp add: sorted_sort_key)
next
  case (Close w)
  with assms onClose_invariants [of w s] show ?thesis by auto
next
  case (ProcessIncoming envs now)
  obtain out rest where sr: "shiftReady now (incomingQueue s) = (out, rest)"
    by (cases "shiftReady now (incomingQueue s)")
  from shiftReady_split [OF sr] assms(2) have r: "sorted (map deliverAt rest)"
    by (simp add: sorted_append)
  have "\<forall>kp \<in> set (players (s\<lparr>incomingQueue := rest\<rparr>)). p_lastInput (snd kp) \<noteq> None"
    using assms(1) by simp
  from deliver_invariants [OF this, of envs 0 out] r sr ProcessIncoming assms(3)
  show ?thesis by (auto simp add: processIncomingQueue_def)
next
  case (FlushOutgoing now isOpen)
  with assms show ?thesis by (auto simp add: flushOutgoing_def split: prod.splits)
next
  case (Tick te)
  with assms(3) have g: "stateOf (gameTick te s) = s'" by (simp add: stateOf_simps)
  have "\<forall>kp \<in> set (players s'). p_lastInput (snd kp) \<noteq> None"
  proof
    fix kp assume m: "kp \<in> set (players s')"
    obtain k p' where kp: "kp = (k, p')" by (cases kp)
    from tick_player_origin [of k p' te s] g m kp obtain p where
      p: "(k, p) \<in> set (players s)" "(movePlayer p)\<lparr>p_score := 0\<rparr> = p'\<lparr>p_score := 0\<rparr>" by blast
    from p(1) assms(1) have "p_lastInput p \<noteq> None" by force
    with unscored_fields [OF p(2)] show "p_lastInput (snd kp) \<noteq> None"
      by (simp add: kp movePlayer_lastInput)
  qed
  with gameTick_players [of te s] g assms(2) show ?thesis by simp
next
  case (Housekeeping now)
  with assms sweep_invariants [of now "players s" s] show ?thesis
    by (auto simp add: housekeeping_def)
next
  case SortQueues
  with assms show ?thesis by (auto simp add: sortQueues_def sorted_sort_key)
next
  case (CliSpawn uuid rx ry)
  with assms show ?thesis by (auto simp add: maybeSpawnCoin_frame)
qed

lemma history_invariants:
  "history s picked \<Longrightarrow>
   (\<forall>kp \<in> set (players s). p_lastInput (snd kp) \<noteq> None)
   \<and> sorted (map deliverAt (incomingQueue s))"
proof (induction rule: history.induct)
  case (history_init now)
  show ?case by (simp add: initialServer_def)
next
  case (history_step s picked ev s')
  from step_invariants [of s ev s'] history_step show ?case by blast
qed

text \<open>
  The inbound queue. Every \<open>message\<close> event sorts the queue it has appended to, so in every
  state the server reaches the inbound queue is sorted by \<open>deliverAt\<close>: a drain at time
  \<open>now\<close> shifts exactly the entries with \<open>deliverAt \<le> now\<close>, in non-decreasing \<open>deliverAt\<close>
  order, and leaves the others. The sort is stable: among entries of one \<open>deliverAt\<close>, a
  new message stands after those queued before it.
\<close>

theorem inbound_drain_in_deliverAt_order:
  assumes "history s picked"
  shows "fst (shiftReady now (incomingQueue s)) = filter (\<lambda>item. deliverAt item \<le> now) (incomingQueue s)
     \<and> sorted (map deliverAt (fst (shiftReady now (incomingQueue s))))
     \<and> incomingQueue (processIncomingQueue envs now s)
         = filter (\<lambda>item. \<not> deliverAt item \<le> now) (incomingQueue s)
     \<and> filter (\<lambda>item. deliverAt item = d) (incomingQueue (onMessage rnd t w raw s))
         = filter (\<lambda>item. deliverAt item = d)
             (incomingQueue s @
                [\<lparr>deliverAt = t + ONE_WAY_LATENCY + latencyJitter rnd, sock = w, payload = raw\<rparr>])"
proof -
  from history_invariants [OF assms]
  have i: "\<forall>kp \<in> set (players s). p_lastInput (snd kp) \<noteq> None"
    and q: "sorted (map deliverAt (incomingQueue s))" by simp_all
  note sr = shiftReady_sorted [OF q, of now]
  have a: "fst (shiftReady now (incomingQueue s))
      = filter (\<lambda>item. deliverAt item \<le> now) (incomingQueue s)"
    by (simp add: sr)
  have "sorted (map deliverAt (filter (\<lambda>item. deliverAt item \<le> now) (incomingQueue s)))"
    using q by (rule sorted_filter)
  then have b: "sorted (map deliverAt (fst (shiftReady now (incomingQueue s))))" by (simp add: a)
  have "\<forall>kp \<in> set (players (s\<lparr>incomingQueue := filter (\<lambda>item. \<not> deliverAt item \<le> now) (incomingQueue s)\<rparr>)).
          p_lastInput (snd kp) \<noteq> None"
    using i by simp
  from deliver_invariants [OF this, of envs 0 "filter (\<lambda>item. deliverAt item \<le> now) (incomingQueue s)"]
  have c: "incomingQueue (processIncomingQueue envs now s)
         = filter (\<lambda>item. \<not> deliverAt item \<le> now) (incomingQueue s)"
    by (simp add: processIncomingQueue_def sr)
  have d: "filter (\<lambda>item. deliverAt item = d) (incomingQueue (onMessage rnd t w raw s))
         = filter (\<lambda>item. deliverAt item = d)
             (incomingQueue s @
                [\<lparr>deliverAt = t + ONE_WAY_LATENCY + latencyJitter rnd, sock = w, payload = raw\<rparr>])"
    unfolding onMessage_def sortQueues_def queueIncoming_def
    using sort_key_stable [of deliverAt d
        "incomingQueue s @ [\<lparr>deliverAt = t + ONE_WAY_LATENCY + latencyJitter rnd, sock = w, payload = raw\<rparr>]"]
    by simp
  from a b c d show ?thesis by (intro conjI)
qed

theorem inbound_drain_in_deliverAt_order_witness:
  "history (onMessage 0 0 2 (Some (Ping None))
             (onMessage (19 / 20) 0 1 (Some (Join None)) (initialServer 0))) []
   \<and> map (\<lambda>item. (deliverAt item, sock item))
        (incomingQueue (onMessage 0 0 2 (Some (Ping None))
             (onMessage (19 / 20) 0 1 (Some (Join None)) (initialServer 0))))
       = [(190, 2), (209, 1)]
   \<and> map (\<lambda>item. (deliverAt item, sock item))
        (fst (shiftReady 200 (incomingQueue (onMessage 0 0 2 (Some (Ping None))
             (onMessage (19 / 20) 0 1 (Some (Join None)) (initialServer 0))))))
       = [(190, 2)]"
proof -
  let ?s1 = "onMessage (19 / 20) 0 1 (Some (Join None)) (initialServer 0)"
  let ?s2 = "onMessage 0 0 2 (Some (Ping None)) ?s1"
  have "history (initialServer 0) []" by (rule history_init)
  from history_step [OF this, of "Message (19 / 20) 0 1 (Some (Join None))" ?s1]
  have "history ?s1 []" by simp
  from history_step [OF this, of "Message 0 0 2 (Some (Ping None))" ?s2]
  have h: "history ?s2 []" by simp
  have q: "map (\<lambda>item. (deliverAt item, sock item)) (incomingQueue ?s2) = [(190, 2), (209, 1)]"
    by (simp add: onMessage_def sortQueues_def queueIncoming_def initialServer_def
        latencyJitter_def LATENCY_JITTER_def ONE_WAY_LATENCY_def)
  have f: "map (\<lambda>item. (deliverAt item, sock item))
             (filter (\<lambda>item. deliverAt item \<le> 200) (incomingQueue ?s2)) = [(190, 2)]"
    by (simp add: onMessage_def sortQueues_def queueIncoming_def initialServer_def
        latencyJitter_def LATENCY_JITTER_def ONE_WAY_LATENCY_def)
  from inbound_drain_in_deliverAt_order [OF h, of 200, THEN conjunct1] f
  have "map (\<lambda>item. (deliverAt item, sock item)) (fst (shiftReady 200 (incomingQueue ?s2)))
       = [(190, 2)]"
    by simp
  with h q show ?thesis by (intro conjI)
qed

text \<open>
  In every state the server reaches, every player of the registry has a stored intent: no
  read of \<open>lastInput.seq\<close> throws, neither in the handling of an input nor in the
  snapshot. What is left to throw is the conversion of a name in a log: the tick
  returns when every name of the registry can be converted to a string, and the handling
  of a message returns unless it is a join below capacity under a name that cannot.
\<close>

theorem reachable_server_throws_on_names_only:
  assumes "history s picked"
  shows "list_all (\<lambda>kp. p_lastInput (snd kp) \<noteq> None) (players s)
     \<and> (list_all (\<lambda>kp. canToString (p_name (snd kp))) (players s) \<longrightarrow>
          (\<exists>s'. gameTick te s = Inr s'))
     \<and> ((case m of Join nm \<Rightarrow>
            length (players s) \<ge> MAX_PLAYERS \<or> canToString (p_name (newPlayer e nm))
          | _ \<Rightarrow> True) \<longrightarrow>
          (\<exists>s'. handleClientMessage e w m s = Inr s'))"
proof -
  from history_invariants [OF assms]
  have i: "\<forall>kp \<in> set (players s). p_lastInput (snd kp) \<noteq> None" by simp
  have h: "(case m of Join nm \<Rightarrow>
            length (players s) \<ge> MAX_PLAYERS \<or> canToString (p_name (newPlayer e nm))
          | _ \<Rightarrow> True) \<longrightarrow>
          (\<exists>s'. handleClientMessage e w m s = Inr s')"
  proof (cases m)
    case (Input mseq mdx mdy mts)
    show ?thesis
    proof (cases "\<exists>pid p. map_of (sockets s) w = Some (Some pid) \<and> pid \<noteq> []
                     \<and> map_of (players s) pid = Some p")
      case True
      then obtain pid p where b: "map_of (sockets s) w = Some (Some pid)" "pid \<noteq> []"
        "map_of (players s) pid = Some p" by blast
      from map_of_SomeD [OF b(3)] i obtain li where "p_lastInput p = Some li" by force
      from handle_input_bound [OF b this, of e mseq mdx mdy mts] Input show ?thesis by simp
    next
      case False
      then have "handleClientMessage e w (Input mseq mdx mdy mts) s = Inr s"
        by (auto split: option.splits)
      with Input show ?thesis by simp
    qed
  next
    case (Join nm)
    then show ?thesis by (auto simp add: Let_def)
  qed simp_all
  have g: "list_all (\<lambda>kp. canToString (p_name (snd kp))) (players s) \<longrightarrow>
          (\<exists>s'. gameTick te s = Inr s')"
    using gameTick_total [OF i, of te] by (simp add: list_all_iff)
  from i have "list_all (\<lambda>kp. p_lastInput (snd kp) \<noteq> None) (players s)"
    by (simp add: list_all_iff)
  with g h show ?thesis by (intro conjI)
qed

theorem reachable_server_throws_on_names_only_witness:
  "history joinedServer []
   \<and> list_all (\<lambda>kp. canToString (p_name (snd kp))) (players joinedServer)
   \<and> (\<exists>s'. gameTick tickEnv0 joinedServer = Inr s')
   \<and> (\<exists>s'. handleClientMessage env1 1 (Input (Some 1) (Some 1) None None) joinedServer = Inr s')
   \<and> (\<exists>s'. handleClientMessage env1 2 (Join (Some (JStr ''Bob''))) joinedServer = Inr s')"
proof -
  have n: "list_all (\<lambda>kp. canToString (p_name (snd kp))) (players joinedServer)"
    by (simp add: joinedServer_eq newPlayer_name)
  note t = reachable_server_throws_on_names_only [OF joinedServer_history, where te = tickEnv0
      and e = env1]
  from t [where w = 1 and m = "Input (Some 1) (Some 1) None None", THEN conjunct2, THEN conjunct1] n
  have a: "\<exists>s'. gameTick tickEnv0 joinedServer = Inr s'" by blast
  from t [where w = 1 and m = "Input (Some 1) (Some 1) None None", THEN conjunct2, THEN conjunct2]
  have b: "\<exists>s'. handleClientMessage env1 1 (Input (Some 1) (Some 1) None None) joinedServer = Inr s'"
    by (simp del: handleClientMessage.simps)
  from t [where w = 2 and m = "Join (Some (JStr ''Bob''))", THEN conjunct2, THEN conjunct2]
  have c: "\<exists>s'. handleClientMessage env1 2 (Join (Some (JStr ''Bob''))) joinedServer = Inr s'"
    by (simp add: newPlayer_name del: handleClientMessage.simps)
  from joinedServer_history n a b c show ?thesis by (intro conjI)
qed

text \<open>
  A tick that throws. The player who joined under the name \<open>{"toString":1}\<close> stands at
  \<open>(210, 440)\<close>, and the console's \<open>spawn\<close> draws that very spot. The next tick gives the
  coin to that player (score 1, coin deleted); then the \<open>[pickup]\<close> log converts the name
  to a string and throws. The exception escapes the timer callback: the tick never
  reaches its snapshot, and no packet is queued.
\<close>

theorem tick_throws_on_unprintable_name:
  "history oddCoin []
   \<and> map (\<lambda>kp. (fst kp, p_x (snd kp), p_y (snd kp), p_score (snd kp))) (players oddCoin)
       = [(''a1b2c3'', 400, 300, 0), (''d4e5f6'', 210, 440, 0)]
   \<and> map (\<lambda>kc. (fst kc, c_x (snd kc), c_y (snd kc))) (coins oddCoin) = [(''c0ffee'', 210, 440)]
   \<and> list_all (\<lambda>kp. p_lastInput (snd kp) \<noteq> None) (players oddCoin)
   \<and> (\<exists>s'. gameTick tickEnv1 oddCoin = Inl (TypeError, s')
         \<and> map (\<lambda>kp. (fst kp, p_score (snd kp))) (players s') = [(''a1b2c3'', 0), (''d4e5f6'', 1)]
         \<and> coins s' = []
         \<and> outgoingQueue s' = outgoingQueue oddCoin)"
proof -
  let ?ann = "newPlayer env0 (Some (JStr ''Ann''))"
  let ?odd = "newPlayer env1 (Some (JObj [(''toString'', JNum 1)]))"
  let ?coin = "\<lparr>c_id = ''c0ffee'', c_x = 210, c_y = 440\<rparr>"
  have ps: "players oddCoin = [(''a1b2c3'', ?ann), (''d4e5f6'', ?odd)]"
    by (simp add: oddCoin_def maybeSpawnCoin_frame oddJoined_eq)
  have cs: "coins oddCoin = [(''c0ffee'', ?coin)]"
    by (simp add: oddCoin_def maybeSpawnCoin_def oddJoined_eq oddJoinQueued_fields MAX_COINS_def
        MAP_W_def MAP_H_def)
  have ann: "p_x ?ann = 400" "p_y ?ann = 300" "p_score ?ann = 0"
    "p_lastInput ?ann = Some \<lparr>i_seq = 0, i_dx = Some 0, i_dy = Some 0, i_ts = None\<rparr>"
    by (simp_all add: newPlayer_def env0_def MAP_W_def MAP_H_def)
  have odd: "p_x ?odd = 210" "p_y ?odd = 440" "p_score ?odd = 0"
    "p_lastInput ?odd = Some \<lparr>i_seq = 0, i_dx = Some 0, i_dy = Some 0, i_ts = None\<rparr>"
    "p_name ?odd = JObj [(''toString'', JNum 1)]"
    by (simp_all add: newPlayer_def env1_def MAP_W_def MAP_H_def)
  have mv: "movePlayer ?ann = ?ann" "movePlayer ?odd = ?odd"
    by (simp_all add: movePlayer_def ann odd tickDisplacement_idle MAP_W_def MAP_H_def)
  have rng: "\<not> inRange ?coin ?ann" "inRange ?coin ?odd"
    by (simp_all add: inRange_def ann odd PICKUP_RADIUS_def power2_eq_square)
  have h: "history oddCoin []"
    using history_step [OF oddJoined_history, of "CliSpawn ''c0ffee'' (1 / 4) (3 / 4)" oddCoin]
    by (simp add: oddCoin_def)
  have a: "map (\<lambda>kp. (fst kp, p_x (snd kp), p_y (snd kp), p_score (snd kp))) (players oddCoin)
       = [(''a1b2c3'', 400, 300, 0), (''d4e5f6'', 210, 440, 0)]"
    by (simp add: ps ann odd)
  have b: "map (\<lambda>kc. (fst kc, c_x (snd kc), c_y (snd kc))) (coins oddCoin) = [(''c0ffee'', 210, 440)]"
    by (simp add: cs)
  have c: "list_all (\<lambda>kp. p_lastInput (snd kp) \<noteq> None) (players oddCoin)"
    by (simp add: ps ann odd)
  have res: "coinResolution (applyMovement (players oddCoin)) (coins oddCoin)
      = Inl (TypeError, ([(''a1b2c3'', ?ann), (''d4e5f6'', ?odd\<lparr>p_score := p_score ?odd + 1\<rparr>)], [],
               [(''c0ffee'', ''d4e5f6'')]))"
    by (simp add: ps cs applyMovement_def mv coinResolution_def rng odd DEBUG_def)
  let ?s' = "oddCoin\<lparr>serverTick := serverTick oddCoin + 1,
                     players := [(''a1b2c3'', ?ann), (''d4e5f6'', ?odd\<lparr>p_score := p_score ?odd + 1\<rparr>)],
                     coins := []\<rparr>"
  have g: "gameTick tickEnv1 oddCoin = Inl (TypeError, ?s')"
    by (simp add: gameTick_def Let_def res)
  have d: "\<exists>s'. gameTick tickEnv1 oddCoin = Inl (TypeError, s')
         \<and> map (\<lambda>kp. (fst kp, p_score (snd kp))) (players s') = [(''a1b2c3'', 0), (''d4e5f6'', 1)]
         \<and> coins s' = []
         \<and> outgoingQueue s' = outgoingQueue oddCoin"
    by (intro exI [of _ ?s']) (simp add: g ann odd)
  from h a b c d show ?thesis by (intro conjI)
qed

subsection \<open>Further properties of the interpolation\<close>

lemma findBracket_nonempty: "findBracket renderTime buffer = Some ab \<Longrightarrow> buffer \<noteq> []"
  by (cases buffer) auto

lemma findBracket_newer:
  "(\<forall>sn \<in> set buffer. serverTime sn < renderTime) \<Longrightarrow> findBracket renderTime buffer = None"
  by (induction renderTime buffer rule: findBracket.induct) auto

lemma map_of_tabulate: "i \<in> set ids \<Longrightarrow> map_of (map (\<lambda>k. (k, f k)) ids) i = Some (f i)"
  by (induction ids) auto

lemma bracket_positions:
  assumes "findBracket renderTime buffer = Some (a, b)"
    and "i \<in> fst ` set (byId (snapPlayers a)) \<union> fst ` set (byId (snapPlayers b))"
  shows "\<exists>ps. getRemoteEntityPositions renderTime buffer = Some ps
     \<and> map_of ps i = Some (interpolateEntity (byId (snapPlayers a)) (byId (snapPlayers b))
          (real_of_int (renderTime - serverTime a)
             / real_of_int (max 1 (serverTime b - serverTime a))) i)"
proof -
  let ?ids = "map fst (byId (snapPlayers a)) @
      filter (\<lambda>k. k \<notin> set (map fst (byId (snapPlayers a)))) (map fst (byId (snapPlayers b)))"
  from assms(2) have "i \<in> set ?ids" by auto
  from map_of_tabulate [OF this] findBracket_nonempty [OF assms(1)] assms(1)
  show ?thesis by (simp add: getRemoteEntityPositions_def Let_def)
qed

text \<open>
  Interpolation at the ends of a bracketing pair. When the search finds the pair \<open>(a, b)\<close>
  with \<open>a\<close> strictly older than \<open>b\<close>, an entity present in both is drawn at its position in
  \<open>a\<close> for the render time of \<open>a\<close> and at its position in \<open>b\<close> for the render time of \<open>b\<close>
  (times are whole milliseconds, so the divisor \<open>max(1, \<dots>)\<close> is the difference itself). A
  render time newer than every buffered snapshot gives the positions of the last one.
\<close>

theorem interpolation_meets_both_snapshots:
  "(findBracket renderTime buffer = Some (a, b) \<and> serverTime a < serverTime b
      \<and> map_of (byId (snapPlayers a)) i = Some pa \<and> map_of (byId (snapPlayers b)) i = Some pb
      \<longrightarrow> (\<exists>ps r. getRemoteEntityPositions renderTime buffer = Some ps \<and> map_of ps i = Some r
             \<and> (renderTime = serverTime a \<longrightarrow> r_x r = e_x pa \<and> r_y r = e_y pa)
             \<and> (renderTime = serverTime b \<longrightarrow> r_x r = e_x pb \<and> r_y r = e_y pb)))
   \<and> (buffer \<noteq> [] \<and> (\<forall>sn \<in> set buffer. serverTime sn < renderTime)
      \<longrightarrow> getRemoteEntityPositions renderTime buffer
            = Some (fold (\<lambda>p m. AList.update (e_id p) (renderedOf p) m) (snapPlayers (last buffer)) []))"
proof (intro conjI impI)
  assume h: "findBracket renderTime buffer = Some (a, b) \<and> serverTime a < serverTime b
      \<and> map_of (byId (snapPlayers a)) i = Some pa \<and> map_of (byId (snapPlayers b)) i = Some pb"
  let ?t = "real_of_int (renderTime - serverTime a) / real_of_int (max 1 (serverTime b - serverTime a))"
  let ?r = "interpolateEntity (byId (snapPlayers a)) (byId (snapPlayers b)) ?t i"
  from h have "i \<in> fst ` set (byId (snapPlayers a))"
    by (metis map_of_eq_None_iff option.distinct(1))
  with bracket_positions [of renderTime buffer a b i] h
  obtain ps where ps: "getRemoteEntityPositions renderTime buffer = Some ps" "map_of ps i = Some ?r"
    by auto
  have r: "r_x ?r = lerp (e_x pa) (e_x pb) ?t" "r_y ?r = lerp (e_y pa) (e_y pb) ?t"
    using h by (simp_all add: interpolateEntity_def renderedOf_def Let_def)
  have t0: "renderTime = serverTime a \<longrightarrow> ?t = 0" by simp
  have t1: "renderTime = serverTime b \<longrightarrow> ?t = 1" using h by simp
  have "(renderTime = serverTime a \<longrightarrow> r_x ?r = e_x pa \<and> r_y ?r = e_y pa)
      \<and> (renderTime = serverTime b \<longrightarrow> r_x ?r = e_x pb \<and> r_y ?r = e_y pb)"
    using t0 t1 unfolding r by (auto simp add: lerp_def)
  with ps show "\<exists>ps r. getRemoteEntityPositions renderTime buffer = Some ps \<and> map_of ps i = Some r
             \<and> (renderTime = serverTime a \<longrightarrow> r_x r = e_x pa \<and> r_y r = e_y pa)
             \<and> (renderTime = serverTime b \<longrightarrow> r_x r = e_x pb \<and> r_y r = e_y pb)"
    by blast
next
  assume "buffer \<noteq> [] \<and> (\<forall>sn \<in> set buffer. serverTime sn < renderTime)"
  with findBracket_newer [of buffer renderTime]
  show "getRemoteEntityPositions renderTime buffer
            = Some (fold (\<lambda>p m. AList.update (e_id p) (renderedOf p) m) (snapPlayers (last buffer)) [])"
    by (simp add: getRemoteEntityPositions_def)
qed

text \<open>
  An entity of the earlier snapshot only. When the search finds the pair \<open>(a, b)\<close> and an
  entity is in \<open>a\<close> but not in \<open>b\<close>, it is drawn at its position in \<open>a\<close>, whatever the
  fraction.
\<close>

theorem entity_of_earlier_snapshot_is_held:
  assumes "findBracket renderTime buffer = Some (a, b)"
    and "map_of (byId (snapPlayers a)) i = Some pa"
    and "map_of (byId (snapPlayers b)) i = None"
  shows "\<exists>ps r. getRemoteEntityPositions renderTime buffer = Some ps \<and> map_of ps i = Some r
     \<and> r_x r = e_x pa \<and> r_y r = e_y pa \<and> r_score r = e_score pa"
proof -
  let ?t = "real_of_int (renderTime - serverTime a) / real_of_int (max 1 (serverTime b - serverTime a))"
  let ?r = "interpolateEntity (byId (snapPlayers a)) (byId (snapPlayers b)) ?t i"
  from assms(2) have "i \<in> fst ` set (byId (snapPlayers a))"
    by (metis map_of_eq_None_iff option.distinct(1))
  with bracket_positions [of renderTime buffer a b i] assms(1)
  obtain ps where ps: "getRemoteEntityPositions renderTime buffer = Some ps" "map_of ps i = Some ?r"
    by auto
  have "r_x ?r = e_x pa \<and> r_y ?r = e_y pa \<and> r_score ?r = e_score pa"
    using assms(2,3) by (simp add: interpolateEntity_def renderedOf_def lerp_def Let_def)
  with ps show ?thesis by blast
qed

lemma snap_lookups:
  "map_of (byId (snapPlayers snapA)) ''a''
     = Some \<lparr>e_id = ''a'', e_name = JStr ''Ann'', e_x = 20, e_y = 40, e_score = 1, e_lastInputSeq = Some 2\<rparr>"
  "map_of (byId (snapPlayers snapB)) ''a''
     = Some \<lparr>e_id = ''a'', e_name = JStr ''Ann'', e_x = 60, e_y = 80, e_score = 2, e_lastInputSeq = Some 4\<rparr>"
  "map_of (byId (snapPlayers snapB)) ''b''
     = Some \<lparr>e_id = ''b'', e_name = JStr ''Bob'', e_x = 100, e_y = 50, e_score = 3, e_lastInputSeq = Some 1\<rparr>"
  "map_of (byId (snapPlayers snapC)) ''b'' = None"
  by (simp_all add: byId_def snapA_def snapB_def snapC_def)

lemma snap_times: "serverTime snapA = 100" "serverTime snapB = 200" "serverTime snapC = 300"
  by (simp_all add: snapA_def snapB_def snapC_def)

theorem interpolation_meets_both_snapshots_witness:
  "findBracket 100 [snapA, snapB, snapC] = Some (snapA, snapB)
   \<and> findBracket 200 [snapA, snapB, snapC] = Some (snapA, snapB)
   \<and> (\<exists>ps r. getRemoteEntityPositions 100 [snapA, snapB, snapC] = Some ps
         \<and> map_of ps ''a'' = Some r \<and> r_x r = 20 \<and> r_y r = 40)
   \<and> (\<exists>ps r. getRemoteEntityPositions 200 [snapA, snapB, snapC] = Some ps
         \<and> map_of ps ''a'' = Some r \<and> r_x r = 60 \<and> r_y r = 80)
   \<and> map_option (map (\<lambda>kr. (fst kr, r_x (snd kr), r_y (snd kr))))
        (getRemoteEntityPositions 400 [snapA, snapB, snapC])
       = Some [(''a'', 70, 90)]"
proof -
  have b1: "findBracket 100 [snapA, snapB, snapC] = Some (snapA, snapB)"
    and b2: "findBracket 200 [snapA, snapB, snapC] = Some (snapA, snapB)"
    by (simp_all add: snap_times)
  have lt: "serverTime snapA < serverTime snapB" by (simp add: snap_times)
  note t = interpolation_meets_both_snapshots [where buffer = "[snapA, snapB, snapC]"]
  from t [where renderTime = 100 and a = snapA and b = snapB and i = "''a''", THEN conjunct1,
      rule_format, OF conjI [OF b1 conjI [OF lt conjI [OF snap_lookups(1) snap_lookups(2)]]]]
  have a: "\<exists>ps r. getRemoteEntityPositions 100 [snapA, snapB, snapC] = Some ps
         \<and> map_of ps ''a'' = Some r \<and> r_x r = 20 \<and> r_y r = 40"
    by (simp add: snap_times)
  from t [where renderTime = 200 and a = snapA and b = snapB and i = "''a''", THEN conjunct1,
      rule_format, OF conjI [OF b2 conjI [OF lt conjI [OF snap_lookups(1) snap_lookups(2)]]]]
  have b: "\<exists>ps r. getRemoteEntityPositions 200 [snapA, snapB, snapC] = Some ps
         \<and> map_of ps ''a'' = Some r \<and> r_x r = 60 \<and> r_y r = 80"
    by (simp add: snap_times)
  have newer: "[snapA, snapB, snapC] \<noteq> [] \<and> (\<forall>sn \<in> set [snapA, snapB, snapC]. serverTime sn < 400)"
    by (simp add: snap_times)
  from t [where renderTime = 400, THEN conjunct2, rule_format, OF newer]
  have c: "map_option (map (\<lambda>kr. (fst kr, r_x (snd kr), r_y (snd kr))))
        (getRemoteEntityPositions 400 [snapA, snapB, snapC])
       = Some [(''a'', 70, 90)]"
    by (simp add: snapC_def renderedOf_def)
  from b1 b2 a b c show ?thesis by (intro conjI)
qed

theorem entity_of_earlier_snapshot_is_held_witness:
  "findBracket 250 [snapA, snapB, snapC] = Some (snapB, snapC)
   \<and> map_option (\<lambda>p. (e_x p, e_y p)) (map_of (byId (snapPlayers snapB)) ''b'') = Some (100, 50)
   \<and> map_of (byId (snapPlayers snapC)) ''b'' = None
   \<and> (\<exists>ps r. getRemoteEntityPositions 250 [snapA, snapB, snapC] = Some ps
         \<and> map_of ps ''b'' = Some r \<and> r_x r = 100 \<and> r_y r = 50)"
proof -
  have b: "findBracket 250 [snapA, snapB, snapC] = Some (snapB, snapC)"
    by (simp add: snap_times)
  from entity_of_earlier_snapshot_is_held [OF b snap_lookups(3) snap_lookups(4)]
  have "\<exists>ps r. getRemoteEntityPositions 250 [snapA, snapB, snapC] = Some ps
         \<and> map_of ps ''b'' = Some r \<and> r_x r = 100 \<and> r_y r = 50"
    by auto
  with b snap_lookups(3) snap_lookups(4) show ?thesis by simp
qed

end
